theory Spec2Isabelle
  imports Main "HOL-Library.Sublist"
begin

section \<open>Python values shared by the components of app.py\<close>

subsection \<open>Exceptions\<close>

text \<open>
  The exception classes that the calls made by app.py raise: Selenium's
  (\<open>WebDriverException\<close> and its subclasses \<open>TimeoutException\<close> and
  \<open>NoSuchElementException\<close>), those of requests (\<open>RequestException\<close> and its subclass
  \<open>HTTPError\<close>), the built-in \<open>ValueError\<close>, \<open>KeyError\<close> and \<open>TypeError\<close>, werkzeug's
  \<open>HTTPException\<close> and the module's own \<open>IECScraperException\<close>. All of them derive from
  \<open>Exception\<close>. An exception value carries its class and the text \<open>str(e)\<close>.
\<close>

datatype exn_class =
    Exception | WebDriverException | TimeoutException | NoSuchElementException
  | RequestException | HTTPError | ValueError | KeyError | TypeError | HTTPException
  | IECScraperException

datatype exn = Exn exn_class string

fun superclasses :: "exn_class \<Rightarrow> exn_class list" where
  "superclasses Exception = [Exception]"
| "superclasses WebDriverException = [WebDriverException, Exception]"
| "superclasses TimeoutException = [TimeoutException, WebDriverException, Exception]"
| "superclasses NoSuchElementException = [NoSuchElementException, WebDriverException, Exception]"
| "superclasses RequestException = [RequestException, Exception]"
| "superclasses HTTPError = [HTTPError, RequestException, Exception]"
| "superclasses ValueError = [ValueError, Exception]"
| "superclasses KeyError = [KeyError, Exception]"
| "superclasses TypeError = [TypeError, Exception]"
| "superclasses HTTPException = [HTTPException, Exception]"
| "superclasses IECScraperException = [IECScraperException, Exception]"

fun isinstance :: "exn \<Rightarrow> exn_class \<Rightarrow> bool" where
  "isinstance (Exn c msg) d = (d \<in> set (superclasses c))"

fun str_exn :: "exn \<Rightarrow> string" where
  "str_exn (Exn c msg) = msg"

subsection \<open>Strings\<close>

text \<open>
  A Python \<open>str\<close> is modelled by a \<open>string\<close>, a character being a code point below 256.
  \<open>isspace\<close> lists the code points below 256 that \<open>str.strip()\<close> and \<open>str.split()\<close> treat
  as whitespace: U+0009..U+000D, U+001C..U+0020, U+0085 and U+00A0.
\<close>

definition isspace :: "char \<Rightarrow> bool" where
  "isspace c = (of_char c \<in> {9, 10, 11, 12, 13, 28, 29, 30, 31, 32, 133, 160 :: nat})"

definition strip :: "string \<Rightarrow> string" where
  "strip s = rev (dropWhile isspace (rev (dropWhile isspace s)))"

text \<open>\<open>s.split()\<close>: skip whitespace, take the maximal run of other characters, repeat.\<close>

function split_ws :: "string \<Rightarrow> string list" where
  "split_ws [] = []"
| "split_ws (c # cs) =
     (if isspace c then split_ws cs
      else (c # takeWhile (\<lambda>x. \<not> isspace x) cs) # split_ws (dropWhile (\<lambda>x. \<not> isspace x) cs))"
  by pat_completeness auto
termination
  by (relation "measure length") (auto simp: le_imp_less_Suc length_dropWhile_le)

text \<open>\<open>sep.join(xs)\<close>.\<close>

fun join :: "string \<Rightarrow> string list \<Rightarrow> string" where
  "join sep [] = []"
| "join sep [x] = x"
| "join sep (x # y # ys) = x @ sep @ join sep (y # ys)"

text \<open>\<open>sub in s\<close> on two strings: \<open>sub\<close> occurs in \<open>s\<close> as a contiguous run.\<close>

definition py_in :: "string \<Rightarrow> string \<Rightarrow> bool" where
  "py_in sub s = sublist sub s"

text \<open>\<open>any(xs)\<close> on a list of strings: some element is non-empty.\<close>

definition py_any :: "string list \<Rightarrow> bool" where
  "py_any xs = list_ex (\<lambda>x. x \<noteq> []) xs"

text \<open>\<open>str(n)\<close> for a non-negative integer.\<close>

function str_nat :: "nat \<Rightarrow> string" where
  "str_nat n = (if n < 10 then [char_of (48 + n)] else str_nat (n div 10) @ [char_of (48 + n mod 10)])"
  by pat_completeness auto
termination
  by (relation "measure id") auto

declare str_nat.simps [simp del]

subsection \<open>JSON values\<close>

text \<open>
  What \<open>request.get_json()\<close> returns: \<open>None\<close>, a bool, a number, a string, a list or a
  dict with string keys. Numbers are integers here (a float takes the same branches: it
  is falsy exactly when zero and is not iterable). A dict is the list of its items, keys
  distinct.
\<close>

datatype json =
    JNull | JBool bool | JNum int | JStr string | JArr "json list" | JObj "(string \<times> json) list"

fun truthy :: "json \<Rightarrow> bool" where
  "truthy JNull = False"
| "truthy (JBool b) = b"
| "truthy (JNum n) = (n \<noteq> 0)"
| "truthy (JStr s) = (s \<noteq> [])"
| "truthy (JArr xs) = (xs \<noteq> [])"
| "truthy (JObj kvs) = (kvs \<noteq> [])"

text \<open>
  \<open>key in data\<close> for a string \<open>key\<close>; not iterable values raise \<open>TypeError\<close>, here with the
  message that CPython gives up to version 3.13.
\<close>

fun json_contains :: "string \<Rightarrow> json \<Rightarrow> exn + bool" where
  "json_contains key JNull = Inl (Exn TypeError ''argument of type 'NoneType' is not iterable'')"
| "json_contains key (JBool b) = Inl (Exn TypeError ''argument of type 'bool' is not iterable'')"
| "json_contains key (JNum n) = Inl (Exn TypeError ''argument of type 'int' is not iterable'')"
| "json_contains key (JStr s) = Inr (py_in key s)"
| "json_contains key (JArr xs) = Inr (JStr key \<in> set xs)"
| "json_contains key (JObj kvs) = Inr (key \<in> set (map fst kvs))"

text \<open>\<open>data[key]\<close> for a string \<open>key\<close>.\<close>

fun json_subscript :: "json \<Rightarrow> string \<Rightarrow> exn + json" where
  "json_subscript JNull key = Inl (Exn TypeError '''NoneType' object is not subscriptable'')"
| "json_subscript (JBool b) key = Inl (Exn TypeError '''bool' object is not subscriptable'')"
| "json_subscript (JNum n) key = Inl (Exn TypeError '''int' object is not subscriptable'')"
| "json_subscript (JStr s) key = Inl (Exn TypeError ''string indices must be integers'')"
| "json_subscript (JArr xs) key = Inl (Exn TypeError ''list indices must be integers or slices, not str'')"
| "json_subscript (JObj kvs) key =
     (case map_of kvs key of None \<Rightarrow> Inl (Exn KeyError key) | Some v \<Rightarrow> Inr v)"

subsection \<open>Calls on the browser and what they leave behind\<close>

text \<open>
  The page elements app.py looks up, and the calls it makes on the browser, the solver
  service and standard output, in the order they are made.
\<close>

datatype element =
    CaptchaImage | CaptchaInput | SubmitButton | SuccessHeading
  | ViewAnyIecButton | IecInput | NameInput | Table | TableRows | NextButton | FormGroups

datatype event =
    Print string | CreateDriver | Get string | WaitFor element | Find element | Click element
  | Clear element | SendKeys element json | Solve | HttpPost | Quit

text \<open>
  A sequence of calls, each with the exception it raises, if any: the first one that
  raises ends the sequence. Every call made is recorded.
\<close>

fun run_calls :: "(event \<times> exn option) list \<Rightarrow> event list \<Rightarrow> exn option \<times> event list" where
  "run_calls [] tr = (None, tr)"
| "run_calls ((ev, r) # rest) tr =
     (case r of Some e \<Rightarrow> (Some e, tr @ [ev]) | None \<Rightarrow> run_calls rest (tr @ [ev]))"

section \<open>The table extractor\<close>

subsection \<open>The parsed page\<close>

text \<open>
  \<open>BeautifulSoup(driver.page_source, 'html.parser')\<close> is a tree of tags and text nodes;
  a tag has a name, attributes and children.
\<close>

datatype node = Text string | Elem string "(string \<times> string) list" "node list"

text \<open>The descendants of a node in document order.\<close>

fun descendants :: "node \<Rightarrow> node list" where
  "descendants (Text s) = []"
| "descendants (Elem name attrs children) = concat (map (\<lambda>c. c # descendants c) children)"

fun is_tag :: "string \<Rightarrow> node \<Rightarrow> bool" where
  "is_tag name (Text s) = False"
| "is_tag name (Elem n attrs children) = (n = name)"

fun get_attr :: "node \<Rightarrow> string \<Rightarrow> string option" where
  "get_attr (Text s) key = None"
| "get_attr (Elem n attrs children) key = map_of attrs key"

fun text_of :: "node \<Rightarrow> string list" where
  "text_of (Text s) = [s]"
| "text_of (Elem n attrs children) = []"

text \<open>\<open>tag.find_all(name)\<close> and \<open>tag.find(name)\<close>.\<close>

definition find_all :: "string \<Rightarrow> node \<Rightarrow> node list" where
  "find_all name tag = filter (is_tag name) (descendants tag)"

definition find_first :: "string \<Rightarrow> node \<Rightarrow> node option" where
  "find_first name tag = (case find_all name tag of [] \<Rightarrow> None | x # xs \<Rightarrow> Some x)"

text \<open>\<open>soup.find('table', {'id': table_id})\<close>.\<close>

definition find_table :: "string \<Rightarrow> node \<Rightarrow> node option" where
  "find_table table_id soup =
     (case filter (\<lambda>t. get_attr t ''id'' = Some table_id) (find_all ''table'' soup) of
        [] \<Rightarrow> None
      | t # ts \<Rightarrow> Some t)"

text \<open>
  \<open>tag.get_text(strip=True)\<close>: every text node below the tag is stripped, the empty
  ones are left out, and the rest are concatenated.
\<close>

definition all_strings :: "node \<Rightarrow> string list" where
  "all_strings tag = concat (map text_of (descendants tag))"

definition get_text_strip :: "node \<Rightarrow> string" where
  "get_text_strip tag = concat (filter (\<lambda>s. s \<noteq> []) (map strip (all_strings tag)))"

subsection \<open>extract_table_data_with_bs4\<close>

text \<open>The function returns the string \<open>""\<close> or the list \<open>rows\<close>.\<close>

datatype py_rows = PyStr string | PyList "string list"

text \<open>Truth value, iteration and the slice \<open>[1:]\<close> of such a value.\<close>

fun rows_truthy :: "py_rows \<Rightarrow> bool" where
  "rows_truthy (PyStr s) = (s \<noteq> [])"
| "rows_truthy (PyList xs) = (xs \<noteq> [])"

fun elements :: "py_rows \<Rightarrow> string list" where
  "elements (PyStr s) = map (\<lambda>c. [c]) s"
| "elements (PyList xs) = xs"

fun slice_from_1 :: "py_rows \<Rightarrow> py_rows" where
  "slice_from_1 (PyStr s) = PyStr (drop 1 s)"
| "slice_from_1 (PyList xs) = PyList (drop 1 xs)"

definition header_cells :: "node \<Rightarrow> string list" where
  "header_cells thead = map get_text_strip (find_all ''th'' thead)"

definition row_cells :: "node \<Rightarrow> string list" where
  "row_cells row = map (\<lambda>col. join '' '' (split_ws (get_text_strip col))) (find_all ''td'' row)"

text \<open>Lines 152 to 156: the header line is appended when some header cell is non-empty.\<close>

definition append_header :: "string \<Rightarrow> node \<Rightarrow> string list \<Rightarrow> string list" where
  "append_header delimiter table rows =
     (case find_first ''thead'' table of
        None \<Rightarrow> rows
      | Some thead \<Rightarrow>
          (let headers = header_cells thead
           in if py_any headers then rows @ [join delimiter headers] else rows))"

text \<open>Lines 162 to 165, the body of the loop over the rows of the table body.\<close>

definition append_row :: "string \<Rightarrow> string list \<Rightarrow> node \<Rightarrow> string list" where
  "append_row delimiter rows row =
     (let row_data = row_cells row
      in if py_any row_data then rows @ [join delimiter row_data] else rows)"

definition append_body :: "string \<Rightarrow> node \<Rightarrow> string list \<Rightarrow> string list" where
  "append_body delimiter table rows =
     (case find_first ''tbody'' table of
        None \<Rightarrow> rows
      | Some tbody \<Rightarrow> foldl (append_row delimiter) rows (find_all ''tr'' tbody))"

text \<open>
  The driver is represented by what \<open>driver.page_source\<close> gives: an exception, or the
  page as html.parser reads it.
\<close>

definition extract_table_data_with_bs4 :: "exn + node \<Rightarrow> string \<Rightarrow> string \<Rightarrow> exn + py_rows" where
  "extract_table_data_with_bs4 page_source table_id delimiter =
     (case page_source of
        Inl e \<Rightarrow> Inl e
      | Inr soup \<Rightarrow>
          (case find_table table_id soup of
             None \<Rightarrow> Inr (PyStr '''')
           | Some table \<Rightarrow>
               Inr (PyList (append_body delimiter table (append_header delimiter table [])))))"

section \<open>The pagination walker\<close>

text \<open>
  What the browser shows while the page counter has a given value: the outcome of the two
  waits on the table, the page source, and the lookup of the "next" control with its class
  attribute (\<open>None\<close> when the attribute is absent) and the outcome of a click on it.
\<close>

record next_button =
  class_attr :: "exn + string option"
  click :: "exn option"

record page_view =
  table_wait :: "exn option"
  rows_wait :: "exn option"
  page_source :: "exn + node"
  next_wait :: "exn + next_button"

datatype loop_exit = Break | Again

text \<open>
  Lines 191 to 202, the inner \<open>try\<close>: the result is how the loop goes on, or an exception
  that the inner handler does not catch.
\<close>

definition check_next_button :: "exn + next_button \<Rightarrow> event list \<Rightarrow> (exn + loop_exit) \<times> event list" where
  "check_next_button lookup tr =
     (let tr1 = tr @ [WaitFor NextButton];
          raised = (\<lambda>e tr'. if isinstance e NoSuchElementException \<or> isinstance e TimeoutException
                              then (Inr Break, tr') else (Inl e, tr'))
      in case lookup of
           Inl e \<Rightarrow> raised e tr1
         | Inr button \<Rightarrow>
             (case class_attr button of
                Inl e \<Rightarrow> raised e tr1
              | Inr None \<Rightarrow> raised (Exn TypeError ''argument of type 'NoneType' is not iterable'') tr1
              | Inr (Some cls) \<Rightarrow>
                  if py_in ''disabled'' cls then (Inr Break, tr1)
                  else (case click button of
                          Some e \<Rightarrow> raised e (tr1 @ [Click NextButton])
                        | None \<Rightarrow> (Inr Again, tr1 @ [Click NextButton]))))"

text \<open>
  Lines 176 to 206, one round of the \<open>while True\<close> loop on the state \<open>page\<close>, \<open>all_rows\<close>:
  the outer handler prints the exception and leaves the loop.
\<close>

definition page_round ::
  "page_view \<Rightarrow> string \<Rightarrow> string \<Rightarrow> nat \<Rightarrow> string list \<Rightarrow> event list
     \<Rightarrow> (exn + loop_exit) \<times> nat \<times> string list \<times> event list" where
  "page_round view table_id delimiter page all_rows tr =
     (let raised = (\<lambda>e rows tr'.
            if isinstance e Exception
            then (Inr Break, page, rows, tr' @ [Print (''Error on page '' @ str_nat page @ '': '' @ str_exn e)])
            else (Inl e, page, rows, tr'))
      in case run_calls [(WaitFor Table, table_wait view), (WaitFor TableRows, rows_wait view)] tr of
           (Some e, tr1) \<Rightarrow> raised e all_rows tr1
         | (None, tr1) \<Rightarrow>
             (case extract_table_data_with_bs4 (page_source view) table_id delimiter of
                Inl e \<Rightarrow> raised e all_rows tr1
              | Inr current_page_rows \<Rightarrow>
                  (let all_rows' =
                         (if page = 1 then all_rows @ elements current_page_rows
                          else all_rows @ elements (if rows_truthy current_page_rows
                                                    then slice_from_1 current_page_rows else PyList []))
                   in case check_next_button (next_wait view) tr1 of
                        (Inl e, tr2) \<Rightarrow> raised e all_rows' tr2
                      | (Inr Break, tr2) \<Rightarrow> (Inr Break, page, all_rows', tr2)
                      | (Inr Again, tr2) \<Rightarrow> (Inr Again, page + 1, all_rows', tr2))))"

text \<open>
  The loop has no bound of its own: on a browser that never disables the "next" control it
  does not return, which is the value \<open>None\<close>.
\<close>

partial_function (option) pagination_loop ::
  "(nat \<Rightarrow> page_view) \<Rightarrow> string \<Rightarrow> string \<Rightarrow> nat \<Rightarrow> string list \<Rightarrow> event list
     \<Rightarrow> ((exn + string list) \<times> event list) option" where
  "pagination_loop driver table_id delimiter page all_rows tr =
     (case page_round (driver page) table_id delimiter page all_rows tr of
        (r, page', all_rows', tr') \<Rightarrow>
          (case r of
             Inl e \<Rightarrow> Some (Inl e, tr')
           | Inr Break \<Rightarrow> Some (Inr all_rows', tr')
           | Inr Again \<Rightarrow> pagination_loop driver table_id delimiter page' all_rows' tr'))"

text \<open>Line 209: the rows are joined with the newline character.\<close>

definition extract_table_data_with_pagination ::
  "(nat \<Rightarrow> page_view) \<Rightarrow> string \<Rightarrow> string \<Rightarrow> string \<Rightarrow> event list
     \<Rightarrow> ((exn + string) \<times> event list) option" where
  "extract_table_data_with_pagination driver table_id next_button_id delimiter tr =
     (case pagination_loop driver table_id delimiter 1 [] tr of
        None \<Rightarrow> None
      | Some (Inl e, tr') \<Rightarrow> Some (Inl e, tr')
      | Some (Inr all_rows, tr') \<Rightarrow> Some (Inr (join [CHR 0x0A] all_rows), tr'))"

section \<open>The CAPTCHA solver and the resolution loop\<close>

subsection \<open>capture_captcha_section\<close>

text \<open>
  The captured region is a raster image of some width and height. The browser side of
  the function is what the body of its \<open>try\<close> block comes to: the first exception raised
  in it, or the cropped image.
\<close>

datatype image = Image nat nat

definition capture_captcha_section :: "exn + image \<Rightarrow> event list \<Rightarrow> (exn + image option) \<times> event list" where
  "capture_captcha_section body tr =
     (case body of
        Inl e \<Rightarrow> if isinstance e TimeoutException then (Inr None, tr @ [WaitFor CaptchaImage])
                 else (Inl e, tr @ [WaitFor CaptchaImage])
      | Inr img \<Rightarrow> (Inr (Some img), tr @ [WaitFor CaptchaImage]))"

subsection \<open>solve_captcha_with_gpt4\<close>

text \<open>
  The service side of one call: whether encoding the image raises, and what
  \<open>session.post\<close> does, an exception of the transport or a response. Of a response the
  function reads the status (through \<open>raise_for_status\<close>, which raises \<open>HTTPError\<close> with
  the response's error line for a status from 400 to 599 and for no other) and the content
  of the first choice of the JSON body: a string, or the exception raised on the way to it.
\<close>

record http_response =
  status_code :: nat
  error_line :: string
  first_choice :: "exn + string"

record solver_service =
  save_png :: "exn option"
  post :: "exn + http_response"

definition raise_for_status :: "http_response \<Rightarrow> exn option" where
  "raise_for_status response =
     (if 400 \<le> status_code response \<and> status_code response < 600
      then Some (Exn HTTPError (error_line response)) else None)"

text \<open>Lines 130 to 138, the body of the \<open>try\<close> block.\<close>

definition post_and_read :: "exn + http_response \<Rightarrow> exn + string" where
  "post_and_read outcome =
     (case outcome of
        Inl e \<Rightarrow> Inl e
      | Inr response \<Rightarrow>
          (case raise_for_status response of
             Some e \<Rightarrow> Inl e
           | None \<Rightarrow>
               (case first_choice response of
                  Inl e \<Rightarrow> Inl e
                | Inr text \<Rightarrow> Inr (strip text))))"

definition solve_captcha_with_gpt4 ::
  "image option \<Rightarrow> solver_service \<Rightarrow> event list \<Rightarrow> (exn + string option) \<times> event list" where
  "solve_captcha_with_gpt4 captcha_image service tr =
     (case captcha_image of
        None \<Rightarrow> (Inr None, tr @ [Solve])
      | Some img \<Rightarrow>
          (case save_png service of
             Some e \<Rightarrow> (Inl e, tr @ [Solve])
           | None \<Rightarrow>
               (case post_and_read (post service) of
                  Inl e \<Rightarrow>
                    if isinstance e Exception
                    then (Inl (Exn IECScraperException (''GPT-4 API error: '' @ str_exn e)),
                          tr @ [Solve, HttpPost])
                    else (Inl e, tr @ [Solve, HttpPost])
                | Inr text \<Rightarrow> (Inr (Some text), tr @ [Solve, HttpPost]))))"

subsection \<open>handle_captcha_submission\<close>

text \<open>
  What the browser and the service do during one attempt: the capture, the solver call,
  the five calls that fill the CAPTCHA field and submit the form, and the wait for the
  success heading (an exception, or the heading, whose text is an exception or a string).
\<close>

record attempt_view =
  capture :: "exn + image"
  solver :: solver_service
  input_wait :: "exn option"
  input_clear :: "exn option"
  input_send_keys :: "exn option"
  submit_wait :: "exn option"
  submit_click :: "exn option"
  success_wait :: "exn + (exn + string)"

definition max_attempts :: nat where
  "max_attempts = 5"

text \<open>\<open>not captcha_text\<close>: the text is \<open>None\<close> or empty.\<close>

fun text_missing :: "string option \<Rightarrow> bool" where
  "text_missing None = True"
| "text_missing (Some s) = (s = [])"

datatype try_exit = ContinueLoop | ReturnTrue | EndOfTry

text \<open>Lines 251 to 257, the inner \<open>try\<close>, whose handler catches \<open>TimeoutException\<close> only.\<close>

definition check_success :: "exn + (exn + string) \<Rightarrow> event list \<Rightarrow> (exn + try_exit) \<times> event list" where
  "check_success heading tr =
     (let tr1 = tr @ [WaitFor SuccessHeading];
          raised = (\<lambda>e. if isinstance e TimeoutException then (Inr EndOfTry, tr1) else (Inl e, tr1))
      in case heading of
           Inl e \<Rightarrow> raised e
         | Inr (Inl e) \<Rightarrow> raised e
         | Inr (Inr text) \<Rightarrow> if py_in ''IEC Details'' text then (Inr ReturnTrue, tr1) else (Inr EndOfTry, tr1))"

text \<open>
  Lines 237 to 257, the body of the outer \<open>try\<close> on the state \<open>attempt\<close>: how the block is
  left, or the exception that leaves it, with the value of \<open>attempt\<close> at that point.
\<close>

definition attempt_try ::
  "attempt_view \<Rightarrow> nat \<Rightarrow> event list \<Rightarrow> (exn + try_exit) \<times> nat \<times> event list" where
  "attempt_try view attempt tr =
     (case capture_captcha_section (capture view) tr of
        (Inl e, tr1) \<Rightarrow> (Inl e, attempt, tr1)
      | (Inr captcha_image, tr1) \<Rightarrow>
          (case solve_captcha_with_gpt4 captcha_image (solver view) tr1 of
             (Inl e, tr2) \<Rightarrow> (Inl e, attempt, tr2)
           | (Inr captcha_text, tr2) \<Rightarrow>
               if text_missing captcha_text then (Inr ContinueLoop, attempt + 1, tr2)
               else
                 (case run_calls
                         [(WaitFor CaptchaInput, input_wait view),
                          (Clear CaptchaInput, input_clear view),
                          (SendKeys CaptchaInput (JStr (case captcha_text of Some s \<Rightarrow> s | None \<Rightarrow> [])),
                           input_send_keys view),
                          (WaitFor SubmitButton, submit_wait view),
                          (Click SubmitButton, submit_click view)] tr2 of
                    (Some e, tr3) \<Rightarrow> (Inl e, attempt, tr3)
                  | (None, tr3) \<Rightarrow>
                      (case check_success (success_wait view) tr3 of
                         (r, tr4) \<Rightarrow> (r, attempt, tr4)))))"

text \<open>
  Lines 236 to 262, one round of the loop: \<open>Some r\<close> when the function is left with \<open>r\<close>,
  \<open>None\<close> when the loop goes on, with the new value of \<open>attempt\<close>.
\<close>

definition attempt_round ::
  "attempt_view \<Rightarrow> nat \<Rightarrow> event list \<Rightarrow> (exn + bool) option \<times> nat \<times> event list" where
  "attempt_round view attempt tr =
     (case attempt_try view attempt tr of
        (Inr ContinueLoop, attempt', tr') \<Rightarrow> (None, attempt', tr')
      | (Inr ReturnTrue, attempt', tr') \<Rightarrow> (Some (Inr True), attempt', tr')
      | (Inr EndOfTry, attempt', tr') \<Rightarrow> (None, attempt' + 1, tr')
      | (Inl e, attempt', tr') \<Rightarrow>
          if isinstance e Exception
          then (None, attempt' + 1,
                tr' @ [Print (''Attempt '' @ str_nat (attempt' + 1) @ '' error: '' @ str_exn e)])
          else (Some (Inl e), attempt', tr'))"

text \<open>
  The loop \<open>while attempt < max_attempts\<close>; the driver is the sequence of what the browser
  and the service do in the successive rounds.
\<close>

function captcha_loop ::
  "(nat \<Rightarrow> attempt_view) \<Rightarrow> nat \<Rightarrow> nat \<Rightarrow> event list \<Rightarrow> (exn + bool) \<times> event list" where
  "captcha_loop driver round attempt tr =
     (if attempt < max_attempts then
        (case attempt_round (driver round) attempt tr of
           (Some r, attempt', tr') \<Rightarrow> (r, tr')
         | (None, attempt', tr') \<Rightarrow>
             captcha_loop driver (round + 1) attempt' tr')
      else (Inr False, tr))"
  by pat_completeness auto

termination
proof (relation "measure (\<lambda>(driver, round, attempt, tr). max_attempts - attempt)")
  show "wf (measure (\<lambda>(driver, round, attempt, tr). max_attempts - attempt))"
    by simp
next
  fix driver :: "nat \<Rightarrow> attempt_view" and round attempt :: nat and tr :: "event list"
    and x :: "(exn + bool) option" and y xa ya
  assume bound: "attempt < max_attempts"
    and none: "x = None"
    and pair: "(xa, ya) = y"
    and round: "(x, y) = attempt_round (driver round) attempt tr"
  obtain r a t where body: "attempt_try (driver round) attempt tr = (r, a, t)"
    by (cases "attempt_try (driver round) attempt tr") auto
  have shape: "r' \<noteq> Inr ContinueLoop" if "check_success h t0 = (r', t1)" for h t0 r' t1
    using that unfolding check_success_def Let_def
    by (auto split: sum.splits if_splits)
  have counter: "a = (if r = Inr ContinueLoop then attempt + 1 else attempt)"
    using body unfolding attempt_try_def
    by (auto split: prod.splits sum.splits if_splits option.splits dest: shape)
  have "xa = attempt + 1"
  proof (cases r)
    case (Inl e)
    with round [symmetric] none pair body counter show ?thesis
      by (auto simp: attempt_round_def split: if_splits)
  next
    case (Inr exit)
    with round [symmetric] none pair body counter show ?thesis
      by (cases exit) (auto simp: attempt_round_def)
  qed
  with bound show "((driver, round + 1, xa, ya), driver, round, attempt, tr)
      \<in> measure (\<lambda>(driver, round, attempt, tr). max_attempts - attempt)"
    by simp
qed

declare captcha_loop.simps [simp del]

definition handle_captcha_submission ::
  "(nat \<Rightarrow> attempt_view) \<Rightarrow> event list \<Rightarrow> (exn + bool) \<times> event list" where
  "handle_captcha_submission driver tr = captcha_loop driver 0 0 tr"

section \<open>The detail panel extractor\<close>

text \<open>
  A field group as the function reads it: the text of its label and of its value, each an
  exception when the sub-element is missing or cannot be read.
\<close>

record form_group =
  label_text :: "exn + string"
  value_text :: "exn + string"

text \<open>
  Lines 217 to 224: \<open>NoSuchElementException\<close> skips the group, any other exception leaves
  the loop.
\<close>

fun collect_details :: "form_group list \<Rightarrow> string list \<Rightarrow> exn + string list" where
  "collect_details [] details = Inr details"
| "collect_details (g # gs) details =
     (case label_text g of
        Inl e \<Rightarrow> if isinstance e NoSuchElementException then collect_details gs details else Inl e
      | Inr l \<Rightarrow>
          (case value_text g of
             Inl e \<Rightarrow> if isinstance e NoSuchElementException then collect_details gs details else Inl e
           | Inr v \<Rightarrow>
               if strip l \<noteq> [] \<and> strip v \<noteq> []
               then collect_details gs (details @ [strip l @ '';'' @ strip v])
               else collect_details gs details))"

definition extract_iec_details ::
  "exn + form_group list \<Rightarrow> event list \<Rightarrow> (exn + string) \<times> event list" where
  "extract_iec_details groups tr =
     (case (case groups of Inl e \<Rightarrow> Inl e | Inr gs \<Rightarrow> collect_details gs []) of
        Inl e \<Rightarrow>
          if isinstance e Exception
          then (Inl (Exn IECScraperException (''Error extracting IEC details: '' @ str_exn e)),
                tr @ [WaitFor FormGroups])
          else (Inl e, tr @ [WaitFor FormGroups])
      | Inr details \<Rightarrow> (Inr (join [CHR 0x0A] details), tr @ [WaitFor FormGroups]))"

section \<open>The request handler\<close>

text \<open>
  \<open>create_driver\<close>: the argument is the exception raised while the driver is installed and
  started, if any.
\<close>

definition create_driver :: "exn option \<Rightarrow> event list \<Rightarrow> (exn + unit) \<times> event list" where
  "create_driver chrome tr =
     (case chrome of
        Some e \<Rightarrow>
          if isinstance e Exception
          then (Inl (Exn IECScraperException (''Failed to create Chrome driver: '' @ str_exn e)),
                tr @ [CreateDriver])
          else (Inl e, tr @ [CreateDriver])
      | None \<Rightarrow> (Inr (), tr @ [CreateDriver]))"

text \<open>
  One request as the handler meets it: what \<open>request.get_json()\<close> gives, and what the
  browser and the service do during the lookup.
\<close>

record request_view =
  get_json :: "exn + json"
  chrome :: "exn option"
  page_get :: "exn option"
  view_button_wait :: "exn option"
  view_button_click :: "exn option"
  iec_input_wait :: "exn option"
  name_input_find :: "exn option"
  iec_send_keys :: "exn option"
  name_send_keys :: "exn option"
  captcha_rounds :: "nat \<Rightarrow> attempt_view"
  form_groups :: "exn + form_group list"
  branch_pages :: "nat \<Rightarrow> page_view"
  driver_quit :: "exn option"

text \<open>A response is the JSON payload with the HTTP status.\<close>

datatype payload = Failure string | Success string string

type_synonym response = "payload \<times> nat"

text \<open>Line 270: \<open>not data or 'iec_code' not in data or 'name' not in data\<close>.\<close>

definition missing_parameters :: "json \<Rightarrow> exn + bool" where
  "missing_parameters data =
     (if \<not> truthy data then Inr True
      else (case json_contains ''iec_code'' data of
              Inl e \<Rightarrow> Inl e
            | Inr has_code \<Rightarrow>
                if \<not> has_code then Inr True
                else (case json_contains ''name'' data of
                        Inl e \<Rightarrow> Inl e
                      | Inr has_name \<Rightarrow> Inr (\<not> has_name))))"

text \<open>
  Lines 282 to 311, the inner \<open>try\<close> block after the driver is created. \<open>None\<close>: the
  pagination walk does not return.
\<close>

definition lookup_steps ::
  "request_view \<Rightarrow> json \<Rightarrow> json \<Rightarrow> event list \<Rightarrow> ((exn + response) \<times> event list) option" where
  "lookup_steps view iec_code name tr =
     (case run_calls
             [(Get ''https://dgft.gov.in/CP/?opt=view-any-ice'', page_get view),
              (WaitFor ViewAnyIecButton, view_button_wait view),
              (Click ViewAnyIecButton, view_button_click view),
              (WaitFor IecInput, iec_input_wait view),
              (Find NameInput, name_input_find view),
              (SendKeys IecInput iec_code, iec_send_keys view),
              (SendKeys NameInput name, name_send_keys view)] tr of
        (Some e, tr1) \<Rightarrow> Some (Inl e, tr1)
      | (None, tr1) \<Rightarrow>
          (case handle_captcha_submission (captcha_rounds view) tr1 of
             (Inl e, tr2) \<Rightarrow> Some (Inl e, tr2)
           | (Inr solved, tr2) \<Rightarrow>
               if \<not> solved then Some (Inr (Failure ''Failed to solve captcha'', 400), tr2)
               else
                 (case extract_iec_details (form_groups view) tr2 of
                    (Inl e, tr3) \<Rightarrow> Some (Inl e, tr3)
                  | (Inr iec_details, tr3) \<Rightarrow>
                      (case extract_table_data_with_pagination (branch_pages view)
                              ''branchTable'' ''branchTable_next'' '';'' tr3 of
                         None \<Rightarrow> None
                       | Some (Inl e, tr4) \<Rightarrow> Some (Inl e, tr4)
                       | Some (Inr branch_details, tr4) \<Rightarrow>
                           Some (Inr (Success iec_details branch_details, 200), tr4)))))"

text \<open>
  Lines 279 to 320: the inner \<open>try\<close> with its handler and its \<open>finally\<close> block. When
  \<open>create_driver\<close> raises, \<open>driver\<close> is still \<open>None\<close> and nothing is quit. An exception
  raised by \<open>driver.quit()\<close> replaces the response that was being returned.
\<close>

definition with_driver ::
  "request_view \<Rightarrow> json \<Rightarrow> json \<Rightarrow> event list \<Rightarrow> ((exn + response) \<times> event list) option" where
  "with_driver view iec_code name tr =
     (let handled = (\<lambda>r. case r of
                            Inl e \<Rightarrow> if isinstance e Exception then Inr (Failure (str_exn e), 500)
                                     else Inl e
                          | Inr resp \<Rightarrow> Inr resp)
      in case create_driver (chrome view) tr of
           (Inl e, tr1) \<Rightarrow> Some (handled (Inl e), tr1)
         | (Inr driver, tr1) \<Rightarrow>
             (case lookup_steps view iec_code name tr1 of
                None \<Rightarrow> None
              | Some (r, tr2) \<Rightarrow>
                  (case driver_quit view of
                     Some e \<Rightarrow> Some (Inl e, tr2 @ [Quit])
                   | None \<Rightarrow> Some (handled r, tr2 @ [Quit]))))"

text \<open>Lines 268 to 326: the handler of \<open>POST /get_iec_details\<close>.\<close>

definition get_iec_details :: "request_view \<Rightarrow> ((exn + response) \<times> event list) option" where
  "get_iec_details view =
     (let server_error = (\<lambda>e tr. if isinstance e Exception
                                  then Some (Inr (Failure (''Server error: '' @ str_exn e), 500), tr)
                                  else Some (Inl e, tr))
      in case get_json view of
           Inl e \<Rightarrow> server_error e []
         | Inr data \<Rightarrow>
             (case missing_parameters data of
                Inl e \<Rightarrow> server_error e []
              | Inr missing \<Rightarrow>
                  if missing
                  then Some (Inr (Failure ''Missing required parameters: iec_code and name'', 400), [])
                  else
                    (case json_subscript data ''iec_code'' of
                       Inl e \<Rightarrow> server_error e []
                     | Inr iec_code \<Rightarrow>
                         (case json_subscript data ''name'' of
                            Inl e \<Rightarrow> server_error e []
                          | Inr name \<Rightarrow>
                              (case with_driver view iec_code name [] of
                                 None \<Rightarrow> None
                               | Some (Inl e, tr) \<Rightarrow> server_error e tr
                               | Some (Inr resp, tr) \<Rightarrow> Some (Inr resp, tr))))))"

section \<open>Notions used in the statements, and sample inputs\<close>

text \<open>
  Whitespace-normalized strings, blank cells, the lines a table yields, page walks that load
  and advance, and the sample pages, services and requests at which the theorems are
  evaluated.
\<close>

fun ws_norm_from :: "bool \<Rightarrow> string \<Rightarrow> bool" where
  "ws_norm_from after_word [] = after_word"
| "ws_norm_from after_word (c # cs) =
     (if isspace c then after_word \<and> c = CHR '' '' \<and> ws_norm_from False cs
      else ws_norm_from True cs)"

definition ws_normalized :: "string \<Rightarrow> bool" where
  "ws_normalized s = (s = [] \<or> ws_norm_from False s)"

definition word :: "string \<Rightarrow> bool" where
  "word w = (w \<noteq> [] \<and> list_all (\<lambda>c. \<not> isspace c) w)"

definition blank_text :: "node \<Rightarrow> bool" where
  "blank_text tag = list_all (list_all isspace) (all_strings tag)"

definition header_lines :: "string \<Rightarrow> node \<Rightarrow> string list" where
  "header_lines delimiter table =
     (case find_first ''thead'' table of
        None \<Rightarrow> []
      | Some thead \<Rightarrow>
          if list_all blank_text (find_all ''th'' thead) then []
          else [join delimiter (header_cells thead)])"

definition body_lines :: "string \<Rightarrow> node \<Rightarrow> string list" where
  "body_lines delimiter table =
     (case find_first ''tbody'' table of
        None \<Rightarrow> []
      | Some tbody \<Rightarrow>
          map (\<lambda>row. join delimiter (row_cells row))
            (filter (\<lambda>row. \<not> list_all blank_text (find_all ''td'' row)) (find_all ''tr'' tbody)))"

definition sample_thead :: node where
  "sample_thead = Elem ''thead'' [] [Elem ''tr'' [] [Elem ''th'' [] [Text ''Branch''], Elem ''th'' [] [Text '' City '']]]"

definition sample_blank_row :: node where
  "sample_blank_row = Elem ''tr'' [] [Elem ''td'' [] [Text ''   ''], Elem ''td'' [] []]"

definition sample_first_row :: node where
  "sample_first_row =
     Elem ''tr'' [] [Elem ''td'' [] [Text ''  Head   Office ''], Elem ''td'' [] [Text ''Pune'']]"

definition sample_tbody :: node where
  "sample_tbody = Elem ''tbody'' [] [sample_first_row, sample_blank_row]"

definition sample_table :: node where
  "sample_table = Elem ''table'' [(''id'', ''branchTable'')] [sample_thead, sample_tbody]"

definition sample_soup :: node where
  "sample_soup = Elem ''[document]'' [] [Elem ''html'' [] [Elem ''body'' [] [sample_table]]]"

definition blank_thead :: node where
  "blank_thead = Elem ''thead'' [] [Elem ''tr'' [] [Elem ''th'' [] [Text '' ''], Elem ''th'' [] []]]"

definition blank_header_table :: node where
  "blank_header_table = Elem ''table'' [(''id'', ''branchTable'')] [blank_thead, sample_tbody]"

definition spaced_thead :: node where
  "spaced_thead = Elem ''thead'' [] [Elem ''tr'' [] [Elem ''th'' [] [Text ''Branch  Name''], Elem ''th'' [] [Text ''City'']]]"

definition spaced_header_soup :: node where
  "spaced_header_soup = Elem ''[document]'' []
     [Elem ''table'' [(''id'', ''branchTable'')] [spaced_thead, sample_tbody]]"

definition loads :: "page_view \<Rightarrow> bool" where
  "loads view =
     (table_wait view = None \<and> rows_wait view = None
      \<and> (case page_source view of Inl e \<Rightarrow> False | Inr soup \<Rightarrow> True))"

definition advances :: "page_view \<Rightarrow> bool" where
  "advances view =
     (loads view
      \<and> (case next_wait view of
           Inl e \<Rightarrow> False
         | Inr button \<Rightarrow>
             (case class_attr button of
                Inl e \<Rightarrow> False
              | Inr None \<Rightarrow> False
              | Inr (Some cls) \<Rightarrow> \<not> py_in ''disabled'' cls \<and> click button = None)))"

definition page_table :: "page_view \<Rightarrow> string \<Rightarrow> node option" where
  "page_table view table_id =
     (case page_source view of Inl e \<Rightarrow> None | Inr soup \<Rightarrow> find_table table_id soup)"

definition page_lines :: "page_view \<Rightarrow> string \<Rightarrow> string \<Rightarrow> string list" where
  "page_lines view table_id delimiter =
     (case extract_table_data_with_bs4 (page_source view) table_id delimiter of
        Inl e \<Rightarrow> []
      | Inr rows \<Rightarrow> elements rows)"

definition view_header :: "page_view \<Rightarrow> string \<Rightarrow> string \<Rightarrow> string list" where
  "view_header view table_id delimiter =
     (case page_table view table_id of None \<Rightarrow> [] | Some table \<Rightarrow> header_lines delimiter table)"

definition view_body :: "page_view \<Rightarrow> string \<Rightarrow> string \<Rightarrow> string list" where
  "view_body view table_id delimiter =
     (case page_table view table_id of None \<Rightarrow> [] | Some table \<Rightarrow> body_lines delimiter table)"

definition contribution :: "nat \<Rightarrow> page_view \<Rightarrow> string \<Rightarrow> string \<Rightarrow> string list" where
  "contribution page view table_id delimiter =
     (if page = 1 then page_lines view table_id delimiter
      else drop 1 (page_lines view table_id delimiter))"

definition merged_lines :: "(nat \<Rightarrow> page_view) \<Rightarrow> string \<Rightarrow> string \<Rightarrow> nat \<Rightarrow> string list" where
  "merged_lines driver table_id delimiter n =
     page_lines (driver 1) table_id delimiter
     @ concat (map (\<lambda>k. drop 1 (page_lines (driver k) table_id delimiter)) [2..<n + 1])"

definition second_tbody :: node where
  "second_tbody = Elem ''tbody'' []
     [Elem ''tr'' [] [Elem ''td'' [] [Text ''Depot''], Elem ''td'' [] [Text ''Nashik'']],
      Elem ''tr'' [] [Elem ''td'' [] [Text ''Yard''], Elem ''td'' [] [Text ''Thane'']]]"

definition second_soup :: node where
  "second_soup = Elem ''[document]'' []
     [Elem ''table'' [(''id'', ''branchTable'')] [sample_thead, second_tbody]]"

definition blank_first_soup :: node where
  "blank_first_soup = Elem ''[document]'' [] [blank_header_table]"

definition blank_second_soup :: node where
  "blank_second_soup = Elem ''[document]'' []
     [Elem ''table'' [(''id'', ''branchTable'')] [blank_thead, second_tbody]]"

definition enabled_next :: next_button where
  "enabled_next = \<lparr>class_attr = Inr (Some ''paginate_button next''), click = None\<rparr>"

definition disabled_next :: next_button where
  "disabled_next = \<lparr>class_attr = Inr (Some ''paginate_button next disabled''), click = None\<rparr>"

definition view_of :: "node \<Rightarrow> next_button \<Rightarrow> page_view" where
  "view_of soup button =
     \<lparr>table_wait = None, rows_wait = None, page_source = Inr soup, next_wait = Inr button\<rparr>"

definition sample_driver :: "nat \<Rightarrow> page_view" where
  "sample_driver k = (if k = 1 then view_of sample_soup enabled_next
                      else view_of second_soup disabled_next)"

definition blank_header_driver :: "nat \<Rightarrow> page_view" where
  "blank_header_driver k = (if k = 1 then view_of blank_first_soup enabled_next
                            else view_of blank_second_soup disabled_next)"

definition is_2xx :: "http_response \<Rightarrow> bool" where
  "is_2xx response = (200 \<le> status_code response \<and> status_code response < 300)"

definition refused_service :: solver_service where
  "refused_service = \<lparr>save_png = None, post = Inl (Exn RequestException ''Connection refused'')\<rparr>"

definition unauthorized :: http_response where
  "unauthorized = \<lparr>status_code = 401, error_line = ''401 Client Error: Unauthorized'',
                    first_choice = Inl (Exn KeyError ''choices'')\<rparr>"

definition unauthorized_service :: solver_service where
  "unauthorized_service = \<lparr>save_png = None, post = Inr unauthorized\<rparr>"

definition not_modified :: http_response where
  "not_modified = \<lparr>status_code = 304, error_line = [], first_choice = Inr '' AB12 ''\<rparr>"

definition not_modified_service :: solver_service where
  "not_modified_service = \<lparr>save_png = None, post = Inr not_modified\<rparr>"

definition fails :: "attempt_view \<Rightarrow> bool" where
  "fails view = (\<forall>attempt tr. fst (attempt_try view attempt tr) \<noteq> Inr ReturnTrue)"

definition submission_event :: "event \<Rightarrow> bool" where
  "submission_event ev =
     (case ev of
        Clear el \<Rightarrow> True
      | SendKeys el text \<Rightarrow> True
      | Click el \<Rightarrow> True
      | WaitFor el \<Rightarrow> el = CaptchaInput \<or> el = SubmitButton
      | _ \<Rightarrow> False)"

definition crashed_view :: attempt_view where
  "crashed_view =
     \<lparr>capture = Inl (Exn WebDriverException (''Message: chrome not reachable'' @ [CHR 0x0A])),
      solver = refused_service,
      input_wait = None, input_clear = None, input_send_keys = None,
      submit_wait = None, submit_click = None,
      success_wait = Inl (Exn TimeoutException [])\<rparr>"

definition empty_answer :: http_response where
  "empty_answer = \<lparr>status_code = 200, error_line = [], first_choice = Inr ''  ''\<rparr>"

definition blank_answer_view :: attempt_view where
  "blank_answer_view =
     \<lparr>capture = Inr (Image 200 60),
      solver = \<lparr>save_png = None, post = Inr empty_answer\<rparr>,
      input_wait = None, input_clear = None, input_send_keys = None,
      submit_wait = None, submit_click = None,
      success_wait = Inr (Inr ''IEC Details'')\<rparr>"

definition form_filled :: "request_view \<Rightarrow> bool" where
  "form_filled view =
     (chrome view = None \<and> page_get view = None \<and> view_button_wait view = None
      \<and> view_button_click view = None \<and> iec_input_wait view = None
      \<and> name_input_find view = None \<and> iec_send_keys view = None
      \<and> name_send_keys view = None)"

definition form_calls :: "json \<Rightarrow> json \<Rightarrow> event list" where
  "form_calls iec_code name =
     [CreateDriver, Get ''https://dgft.gov.in/CP/?opt=view-any-ice'', WaitFor ViewAnyIecButton,
      Click ViewAnyIecButton, WaitFor IecInput, Find NameInput, SendKeys IecInput iec_code,
      SendKeys NameInput name]"

definition sample_request :: "json \<Rightarrow> exn option \<Rightarrow> request_view" where
  "sample_request data quit_outcome =
     \<lparr>get_json = Inr data, chrome = None, page_get = None, view_button_wait = None,
      view_button_click = None, iec_input_wait = None, name_input_find = None,
      iec_send_keys = None, name_send_keys = None, captcha_rounds = (\<lambda>k. crashed_view),
      form_groups = Inr [], branch_pages = sample_driver, driver_quit = quit_outcome\<rparr>"

definition acme_body :: json where
  "acme_body = JObj [(''iec_code'', JStr ''0101000061''), (''name'', JStr ''ACME EXPORTS'')]"

definition empty_strings_body :: json where
  "empty_strings_body = JObj [(''iec_code'', JStr []), (''name'', JStr [])]"

definition quit_raises_request :: request_view where
  "quit_raises_request =
     sample_request acme_body
       (Some (Exn WebDriverException (''Message: chrome not reachable'' @ [CHR 0x0A])))"

definition missing_response :: response where
  "missing_response = (Failure ''Missing required parameters: iec_code and name'', 400)"

definition captcha_response :: response where
  "captcha_response = (Failure ''Failed to solve captcha'', 400)"

section \<open>Properties of the table extractor\<close>

lemma isspace_space: "isspace CHR '' ''"
  by (simp add: isspace_def)

lemma split_ws_words: "list_all word (split_ws s)"
proof (induction s rule: split_ws.induct)
  case 1
  show ?case by simp
next
  case (2 c cs)
  show ?case
  proof (cases "isspace c")
    case True
    with "2.IH" (1) show ?thesis by simp
  next
    case False
    have "list_all (\<lambda>x. \<not> isspace x) (takeWhile (\<lambda>x. \<not> isspace x) cs)"
      unfolding list_all_iff by (blast dest: set_takeWhileD)
    with False have "word (c # takeWhile (\<lambda>x. \<not> isspace x) cs)"
      by (simp add: word_def)
    with "2.IH" (2) [OF False] False show ?thesis by simp
  qed
qed

lemma ws_norm_from_word:
  "word w \<Longrightarrow> ws_norm_from b (w @ rest) = ws_norm_from True rest"
proof (induction w arbitrary: b)
  case Nil
  then show ?case by (simp add: word_def)
next
  case (Cons c w)
  show ?case
  proof (cases "w = []")
    case True
    with Cons.prems show ?thesis by (simp add: word_def)
  next
    case False
    with Cons.prems have "word w" by (simp add: word_def)
    from Cons.IH [OF this] Cons.prems show ?thesis by (simp add: word_def)
  qed
qed

lemma ws_norm_from_join:
  "list_all word ws \<Longrightarrow> ws \<noteq> [] \<Longrightarrow> ws_norm_from b (join '' '' ws)"
proof (induction "'' ''" ws arbitrary: b rule: join.induct)
  case 1
  then show ?case by simp
next
  case (2 x)
  then have "word x" by simp
  from ws_norm_from_word [OF this, of b "[]"] show ?case by simp
next
  case (3 x y ys)
  from "3.prems" have x: "word x" and rest: "list_all word (y # ys)" by simp_all
  have tail: "ws_norm_from False (join '' '' (y # ys))"
    using "3.hyps" [OF rest] by simp
  have "ws_norm_from b (x @ '' '' @ join '' '' (y # ys))
      = ws_norm_from True ('' '' @ join '' '' (y # ys))"
    by (rule ws_norm_from_word [OF x])
  also have "\<dots> = ws_norm_from False (join '' '' (y # ys))"
    using isspace_space by simp
  finally show ?case using tail by simp
qed

lemma collapse_normalized: "ws_normalized (join '' '' (split_ws s))"
proof (cases "split_ws s = []")
  case True
  then show ?thesis by (simp add: ws_normalized_def)
next
  case False
  with ws_norm_from_join [OF split_ws_words, of s False] show ?thesis
    by (simp add: ws_normalized_def)
qed

lemma split_ws_empty: "split_ws s = [] \<longleftrightarrow> list_all isspace s"
  by (induction s rule: split_ws.induct) auto

lemma join_words_empty: "list_all word ws \<Longrightarrow> join sep ws = [] \<longleftrightarrow> ws = []"
  by (induction sep ws rule: join.induct) (auto simp: word_def)

lemma collapse_empty: "join '' '' (split_ws s) = [] \<longleftrightarrow> list_all isspace s"
  using join_words_empty [OF split_ws_words, of "'' ''" s] split_ws_empty by simp

lemma dropWhile_empty: "dropWhile P s = [] \<longleftrightarrow> list_all P s"
  by (induction s) auto

lemma ball_dropWhile: "(\<forall>x\<in>set (dropWhile P s). P x) \<longleftrightarrow> (\<forall>x\<in>set s. P x)"
  by (induction s) auto

lemma strip_empty: "strip s = [] \<longleftrightarrow> list_all isspace s"
  by (simp add: strip_def dropWhile_empty list_all_iff ball_dropWhile)

lemma strip_all_space: "list_all isspace (strip s) \<longleftrightarrow> strip s = []"
proof
  assume all: "list_all isspace (strip s)"
  show "strip s = []"
  proof (rule ccontr)
    assume "strip s \<noteq> []"
    then have ne: "dropWhile isspace (rev (dropWhile isspace s)) \<noteq> []"
      by (simp add: strip_def)
    then have "\<not> isspace (hd (dropWhile isspace (rev (dropWhile isspace s))))"
      by (rule hd_dropWhile)
    moreover from ne have "hd (dropWhile isspace (rev (dropWhile isspace s))) \<in> set (strip s)"
      by (simp add: strip_def)
    ultimately show False using all by (auto simp: list_all_iff)
  qed
qed simp

lemma get_text_strip_empty: "get_text_strip tag = [] \<longleftrightarrow> blank_text tag"
  by (auto simp: get_text_strip_def blank_text_def list_all_iff strip_empty)

lemma get_text_strip_all_space: "list_all isspace (get_text_strip tag) \<longleftrightarrow> blank_text tag"
proof
  assume all: "list_all isspace (get_text_strip tag)"
  have "strip s = []" if "s \<in> set (all_strings tag)" for s
  proof (rule ccontr)
    assume ne: "strip s \<noteq> []"
    with that have "set (strip s) \<subseteq> set (get_text_strip tag)"
      by (auto simp: get_text_strip_def)
    with all have "list_all isspace (strip s)"
      by (auto simp: list_all_iff)
    with ne show False by (simp add: strip_all_space)
  qed
  then have "list_all isspace s" if "s \<in> set (all_strings tag)" for s
    using that by (simp add: strip_empty)
  then show "blank_text tag"
    unfolding blank_text_def by (simp add: list_all_iff [of "list_all isspace"])
next
  assume "blank_text tag"
  then have "get_text_strip tag = []" by (simp add: get_text_strip_empty)
  then show "list_all isspace (get_text_strip tag)" by simp
qed

lemma header_cells_blank:
  "py_any (header_cells thead) \<longleftrightarrow> \<not> list_all blank_text (find_all ''th'' thead)"
  by (auto simp: py_any_def header_cells_def list_ex_iff list_all_iff get_text_strip_empty)

lemma cell_blank:
  "join '' '' (split_ws (get_text_strip col)) = [] \<longleftrightarrow> blank_text col"
  by (simp add: collapse_empty get_text_strip_all_space)

lemma row_cells_blank:
  "py_any (row_cells row) \<longleftrightarrow> \<not> list_all blank_text (find_all ''td'' row)"
  by (simp add: py_any_def row_cells_def list_ex_iff list_all_iff cell_blank)

lemma row_cells_normalized: "list_all ws_normalized (row_cells row)"
  by (simp add: row_cells_def list_all_iff collapse_normalized)

lemma append_header_lines: "append_header d table rows = rows @ header_lines d table"
  by (simp add: append_header_def header_lines_def Let_def header_cells_blank split: option.splits)

lemma foldl_append_row:
  "foldl (append_row d) rows trs =
     rows @ map (\<lambda>row. join d (row_cells row))
              (filter (\<lambda>row. \<not> list_all blank_text (find_all ''td'' row)) trs)"
  by (induction trs arbitrary: rows) (simp_all add: append_row_def Let_def row_cells_blank)

lemma append_body_lines: "append_body d table rows = rows @ body_lines d table"
  by (simp add: append_body_def body_lines_def foldl_append_row split: option.splits)

lemma extract_found:
  "find_table table_id soup = Some table \<Longrightarrow>
     extract_table_data_with_bs4 (Inr soup) table_id d
       = Inr (PyList (header_lines d table @ body_lines d table))"
  by (simp add: extract_table_data_with_bs4_def append_header_lines append_body_lines)

lemma header_lines_fields:
  "l \<in> set (header_lines d table) \<Longrightarrow> \<exists>cells. l = join d cells \<and> py_any cells"
  by (auto simp: header_lines_def header_cells_blank [symmetric] split: option.splits if_splits)

lemma body_lines_fields:
  "l \<in> set (body_lines d table) \<Longrightarrow> \<exists>cells. l = join d cells \<and> py_any cells"
  by (auto simp: body_lines_def row_cells_blank [symmetric] split: option.splits)

lemmas sample_defs = sample_thead_def sample_blank_row_def sample_first_row_def sample_tbody_def sample_table_def
  sample_soup_def blank_thead_def blank_header_table_def spaced_thead_def spaced_header_soup_def

lemmas bs4_defs = find_table_def find_first_def find_all_def header_cells_def row_cells_def
  get_text_strip_def all_strings_def strip_def py_any_def isspace_def
  append_header_def append_row_def append_body_def extract_table_data_with_bs4_def

lemma sample_find: "find_table ''branchTable'' sample_soup = Some sample_table"
  by (simp add: sample_defs bs4_defs)

lemma sample_find_other: "find_table ''detailTable'' sample_soup = None"
  by (simp add: sample_defs bs4_defs)

lemma sample_header: "header_lines '';'' sample_table = [''Branch;City'']"
  by (simp add: append_header_lines [of _ _ "[]", simplified, symmetric] sample_defs bs4_defs)

lemma sample_body: "body_lines '';'' sample_table = [''Head Office;Pune'']"
  by (simp add: append_body_lines [of _ _ "[]", simplified, symmetric] sample_defs bs4_defs)

text \<open>
  C3. When the page has no table with the given id, \<open>extract_table_data_with_bs4\<close> returns the
  empty string \<open>""\<close>, an empty sequence and not an exception. When the table is there it returns
  the list made of the header line, of which there is at most one, followed by the body lines in
  document order.
\<close>

theorem bs4_absent_empty_present_header_first:
  "(find_table table_id soup = None \<longrightarrow>
      extract_table_data_with_bs4 (Inr soup) table_id d = Inr (PyStr [])
      \<and> elements (PyStr []) = [])
   \<and> (\<forall>table. find_table table_id soup = Some table \<longrightarrow>
        extract_table_data_with_bs4 (Inr soup) table_id d
          = Inr (PyList (header_lines d table @ body_lines d table))
        \<and> length (header_lines d table) \<le> 1)"
proof (intro conjI allI impI)
  assume "find_table table_id soup = None"
  then show "extract_table_data_with_bs4 (Inr soup) table_id d = Inr (PyStr [])"
    by (simp add: extract_table_data_with_bs4_def)
next
  show "elements (PyStr []) = []" by simp
next
  fix table
  assume "find_table table_id soup = Some table"
  then show "extract_table_data_with_bs4 (Inr soup) table_id d
      = Inr (PyList (header_lines d table @ body_lines d table))"
    by (rule extract_found)
next
  fix table
  show "length (header_lines d table) \<le> 1"
    by (simp add: header_lines_def split: option.splits)
qed

text \<open>
  On the sample page the table \<open>detailTable\<close> is absent and \<open>branchTable\<close> yields its header line
  and its one body line.
\<close>

theorem bs4_absent_empty_present_header_first_witness:
  "extract_table_data_with_bs4 (Inr sample_soup) ''detailTable'' '';'' = Inr (PyStr [])
   \<and> extract_table_data_with_bs4 (Inr sample_soup) ''branchTable'' '';''
       = Inr (PyList [''Branch;City'', ''Head Office;Pune''])"
proof -
  from bs4_absent_empty_present_header_first [of "''detailTable''" sample_soup "'';''"]
    sample_find_other
  have absent: "extract_table_data_with_bs4 (Inr sample_soup) ''detailTable'' '';'' = Inr (PyStr [])"
    by blast
  from bs4_absent_empty_present_header_first [of "''branchTable''" sample_soup "'';''"]
    sample_find
  have "extract_table_data_with_bs4 (Inr sample_soup) ''branchTable'' '';''
      = Inr (PyList (header_lines '';'' sample_table @ body_lines '';'' sample_table))"
    by blast
  with absent show ?thesis
    by (simp add: sample_header sample_body)
qed

text \<open>
  C4. Header cells are not whitespace-normalized. A header cell whose text is \<open>Branch  Name\<close>, with
  two spaces inside, is written to the header line as it stands: line 154 only strips the ends,
  where line 163 collapses the whitespace of a body cell.
\<close>

theorem header_cells_keep_inner_whitespace:
  "extract_table_data_with_bs4 (Inr spaced_header_soup) ''branchTable'' '';''
     = Inr (PyList [''Branch  Name;City'', ''Head Office;Pune''])
   \<and> header_cells spaced_thead = [''Branch  Name'', ''City'']
   \<and> \<not> ws_normalized ''Branch  Name''"
  by (simp add: sample_defs bs4_defs ws_normalized_def)

lemma blank_header_iff:
  "list_all blank_text (find_all ''th'' thead) \<longleftrightarrow> (\<forall>c\<in>set (header_cells thead). c = [])"
  using header_cells_blank [of thead] by (auto simp: py_any_def list_ex_iff)

lemma blank_row_iff:
  "list_all blank_text (find_all ''td'' row) \<longleftrightarrow> (\<forall>c\<in>set (row_cells row). c = [])"
  using row_cells_blank [of row] by (auto simp: py_any_def list_ex_iff)

lemma header_lines_cells:
  "header_lines d table =
     (case find_first ''thead'' table of
        None \<Rightarrow> []
      | Some thead \<Rightarrow>
          if \<forall>c\<in>set (header_cells thead). c = [] then [] else [join d (header_cells thead)])"
  by (simp add: header_lines_def blank_header_iff split: option.splits)

lemma body_lines_cells:
  "body_lines d table =
     (case find_first ''tbody'' table of
        None \<Rightarrow> []
      | Some tbody \<Rightarrow>
          map (\<lambda>row. join d (row_cells row))
            (filter (\<lambda>row. \<exists>c\<in>set (row_cells row). c \<noteq> []) (find_all ''tr'' tbody)))"
proof -
  have "(\<lambda>row. \<not> list_all blank_text (find_all ''td'' row))
      = (\<lambda>row. \<exists>c\<in>set (row_cells row). c \<noteq> [])"
    by (rule ext) (simp add: blank_row_iff)
  then show ?thesis
    by (simp add: body_lines_def split: option.splits)
qed

lemma header_line_source:
  assumes "l \<in> set (header_lines d table)"
  shows "\<exists>thead. find_first ''thead'' table = Some thead \<and> l = join d (header_cells thead)
           \<and> (\<exists>c\<in>set (header_cells thead). c \<noteq> [])"
proof (cases "find_first ''thead'' table")
  case None
  with assms show ?thesis by (simp add: header_lines_cells)
next
  case (Some thead)
  with assms have "l = join d (header_cells thead)" and "\<exists>c\<in>set (header_cells thead). c \<noteq> []"
    by (auto simp: header_lines_cells split: if_splits)
  with Some show ?thesis by blast
qed

lemma body_line_source:
  assumes "l \<in> set (body_lines d table)"
  shows "\<exists>tbody row. find_first ''tbody'' table = Some tbody \<and> row \<in> set (find_all ''tr'' tbody)
           \<and> l = join d (row_cells row) \<and> (\<exists>c\<in>set (row_cells row). c \<noteq> [])"
proof (cases "find_first ''tbody'' table")
  case None
  with assms show ?thesis by (simp add: body_lines_cells)
next
  case (Some tbody)
  with assms obtain row where "row \<in> set (find_all ''tr'' tbody)"
    and "l = join d (row_cells row)" and "\<exists>c\<in>set (row_cells row). c \<noteq> []"
    by (auto simp: body_lines_cells)
  with Some show ?thesis by blast
qed

text \<open>
  C5. For a table that is found, the output is the header part followed by the body part. The
  header part is empty when the table has no \<open>thead\<close> or when every header cell is blank, and is
  the one joined header line otherwise. The body part holds the joined line of exactly those rows
  of the \<open>tbody\<close> that have a non-blank cell, in order. So every line of the output joins cells of
  which one is non-empty. A cell is empty exactly when its tag holds only whitespace.
\<close>

theorem bs4_no_blank_lines:
  assumes "find_table table_id soup = Some table"
  shows "\<exists>hs bs.
           extract_table_data_with_bs4 (Inr soup) table_id d = Inr (PyList (hs @ bs))
           \<and> (case find_first ''thead'' table of
                None \<Rightarrow> hs = []
              | Some thead \<Rightarrow>
                  hs = (if \<forall>c\<in>set (header_cells thead). c = [] then []
                        else [join d (header_cells thead)]))
           \<and> (case find_first ''tbody'' table of
                None \<Rightarrow> bs = []
              | Some tbody \<Rightarrow>
                  bs = map (\<lambda>row. join d (row_cells row))
                         (filter (\<lambda>row. \<exists>c\<in>set (row_cells row). c \<noteq> [])
                            (find_all ''tr'' tbody)))
           \<and> (\<forall>l\<in>set (hs @ bs).
                 (\<exists>thead. find_first ''thead'' table = Some thead
                    \<and> l = join d (header_cells thead)
                    \<and> (\<exists>c\<in>set (header_cells thead). c \<noteq> []))
                 \<or> (\<exists>tbody row. find_first ''tbody'' table = Some tbody
                      \<and> row \<in> set (find_all ''tr'' tbody)
                      \<and> l = join d (row_cells row)
                      \<and> (\<exists>c\<in>set (row_cells row). c \<noteq> [])))
           \<and> (\<forall>tag. (get_text_strip tag = [] \<longleftrightarrow> blank_text tag)
                 \<and> (join '' '' (split_ws (get_text_strip tag)) = [] \<longleftrightarrow> blank_text tag))"
proof (intro exI conjI)
  show "extract_table_data_with_bs4 (Inr soup) table_id d
      = Inr (PyList (header_lines d table @ body_lines d table))"
    using assms by (rule extract_found)
  show "case find_first ''thead'' table of
          None \<Rightarrow> header_lines d table = []
        | Some thead \<Rightarrow>
            header_lines d table = (if \<forall>c\<in>set (header_cells thead). c = [] then []
                                    else [join d (header_cells thead)])"
    by (simp add: header_lines_cells split: option.splits)
  show "case find_first ''tbody'' table of
          None \<Rightarrow> body_lines d table = []
        | Some tbody \<Rightarrow>
            body_lines d table = map (\<lambda>row. join d (row_cells row))
              (filter (\<lambda>row. \<exists>c\<in>set (row_cells row). c \<noteq> []) (find_all ''tr'' tbody))"
    by (simp add: body_lines_cells split: option.splits)
  show "\<forall>l\<in>set (header_lines d table @ body_lines d table).
          (\<exists>thead. find_first ''thead'' table = Some thead
             \<and> l = join d (header_cells thead)
             \<and> (\<exists>c\<in>set (header_cells thead). c \<noteq> []))
          \<or> (\<exists>tbody row. find_first ''tbody'' table = Some tbody
               \<and> row \<in> set (find_all ''tr'' tbody)
               \<and> l = join d (row_cells row)
               \<and> (\<exists>c\<in>set (row_cells row). c \<noteq> []))"
  proof
    fix l
    assume "l \<in> set (header_lines d table @ body_lines d table)"
    then have "l \<in> set (header_lines d table) \<or> l \<in> set (body_lines d table)"
      by simp
    then show "(\<exists>thead. find_first ''thead'' table = Some thead
             \<and> l = join d (header_cells thead)
             \<and> (\<exists>c\<in>set (header_cells thead). c \<noteq> []))
          \<or> (\<exists>tbody row. find_first ''tbody'' table = Some tbody
               \<and> row \<in> set (find_all ''tr'' tbody)
               \<and> l = join d (row_cells row)
               \<and> (\<exists>c\<in>set (row_cells row). c \<noteq> []))"
      using header_line_source [of l d table] body_line_source [of l d table] by blast
  qed
  show "\<forall>tag. (get_text_strip tag = [] \<longleftrightarrow> blank_text tag)
          \<and> (join '' '' (split_ws (get_text_strip tag)) = [] \<longleftrightarrow> blank_text tag)"
    by (simp add: get_text_strip_empty cell_blank)
qed

lemma blank_first_find: "find_table ''branchTable'' blank_first_soup = Some blank_header_table"
  by (simp add: sample_defs blank_first_soup_def bs4_defs)

lemma blank_first_parts:
  "find_first ''thead'' blank_header_table = Some blank_thead"
  "find_first ''tbody'' blank_header_table = Some sample_tbody"
  "header_cells blank_thead = [[], []]"
  "find_all ''tr'' sample_tbody = [sample_first_row, sample_blank_row]"
  "row_cells sample_first_row = [''Head Office'', ''Pune'']"
  "row_cells sample_blank_row = [[], []]"
  by (simp_all add: sample_defs bs4_defs)

text \<open>
  On the page whose first body row holds only whitespace, that row is left out.
\<close>

theorem bs4_no_blank_lines_witness:
  "extract_table_data_with_bs4 (Inr blank_first_soup) ''branchTable'' '';''
     = Inr (PyList [''Head Office;Pune''])"
proof -
  from bs4_no_blank_lines [OF blank_first_find, of "'';''"]
  obtain hs bs where
    out: "extract_table_data_with_bs4 (Inr blank_first_soup) ''branchTable'' '';''
            = Inr (PyList (hs @ bs))" and
    hs: "case find_first ''thead'' blank_header_table of
           None \<Rightarrow> hs = []
         | Some thead \<Rightarrow>
             hs = (if \<forall>c\<in>set (header_cells thead). c = [] then []
                   else [join '';'' (header_cells thead)])" and
    bs: "case find_first ''tbody'' blank_header_table of
           None \<Rightarrow> bs = []
         | Some tbody \<Rightarrow>
             bs = map (\<lambda>row. join '';'' (row_cells row))
                    (filter (\<lambda>row. \<exists>c\<in>set (row_cells row). c \<noteq> []) (find_all ''tr'' tbody))"
    by blast
  from hs have "hs = []"
    by (simp add: blank_first_parts)
  moreover from bs have "bs = [''Head Office;Pune'']"
    by (simp add: blank_first_parts)
  ultimately show ?thesis
    using out by simp
qed

section \<open>Properties of the pagination walker\<close>

lemma isinstance_Exception: "isinstance e Exception"
proof (cases e)
  case (Exn c msg)
  then show ?thesis by (cases c) simp_all
qed

lemma extract_returns: "\<exists>r. extract_table_data_with_bs4 (Inr soup) table_id d = Inr r"
  by (cases "find_table table_id soup") (simp_all add: extract_table_data_with_bs4_def)

lemma elements_slice:
  "elements (if rows_truthy r then slice_from_1 r else PyList []) = drop 1 (elements r)"
  by (cases r) (auto simp: drop_map)

lemma page_round_advances:
  assumes "advances view"
  shows "page_round view table_id d page all_rows tr =
           (Inr Again, page + 1, all_rows @ contribution page view table_id d,
            tr @ [WaitFor Table, WaitFor TableRows, WaitFor NextButton, Click NextButton])"
proof -
  from assms obtain soup button cls where
    w: "table_wait view = None" "rows_wait view = None" and
    s: "page_source view = Inr soup" and
    n: "next_wait view = Inr button" "class_attr button = Inr (Some cls)"
       "\<not> py_in ''disabled'' cls" "click button = None"
    by (auto simp: advances_def loads_def split: sum.splits option.splits)
  obtain r where r: "extract_table_data_with_bs4 (Inr soup) table_id d = Inr r"
    using extract_returns by blast
  have c: "check_next_button (Inr button) t = (Inr Again, t @ [WaitFor NextButton, Click NextButton])" for t
    using n by (simp add: check_next_button_def)
  show ?thesis
    using w s r c n(1)
    by (simp add: page_round_def contribution_def page_lines_def elements_slice Let_def)
qed

lemma page_round_stops:
  assumes "loads view" and "\<not> advances view"
  shows "\<exists>tr'. page_round view table_id d page all_rows tr =
           (Inr Break, page, all_rows @ contribution page view table_id d, tr')"
proof -
  from assms(1) obtain soup where
    w: "table_wait view = None" "rows_wait view = None" and
    s: "page_source view = Inr soup"
    by (auto simp: loads_def split: sum.splits)
  obtain r where r: "extract_table_data_with_bs4 (Inr soup) table_id d = Inr r"
    using extract_returns by blast
  have "\<exists>x t'. check_next_button (next_wait view) t = (x, t') \<and> x \<noteq> Inr Again" for t
    using assms s w
    by (auto simp: check_next_button_def advances_def Let_def split: sum.splits option.splits)
  then obtain x t' where
    c: "check_next_button (next_wait view) (tr @ [WaitFor Table, WaitFor TableRows]) = (x, t')"
    and x: "x \<noteq> Inr Again"
    by blast
  show ?thesis
  proof (cases x)
    case (Inl e)
    with w s r c show ?thesis
      by (simp add: page_round_def contribution_def page_lines_def elements_slice
          isinstance_Exception Let_def)
  next
    case (Inr exit)
    with x have "exit = Break" by (cases exit) simp_all
    with Inr w s r c show ?thesis
      by (simp add: page_round_def contribution_def page_lines_def elements_slice Let_def)
  qed
qed

lemma pagination_loop_walk:
  assumes "\<forall>j. k \<le> j \<and> j < n \<longrightarrow> advances (driver j)"
    and "loads (driver n)" and "\<not> advances (driver n)" and "k \<le> n"
  shows "\<exists>tr'. pagination_loop driver table_id d k all_rows tr =
           Some (Inr (all_rows @ concat (map (\<lambda>j. contribution j (driver j) table_id d) [k..<n + 1])), tr')"
  using assms
proof (induction "n - k" arbitrary: k all_rows tr)
  case 0
  then have "k = n" by simp
  from page_round_stops [OF "0.prems"(2,3), of table_id d n all_rows tr]
  obtain tr' where "page_round (driver n) table_id d n all_rows tr =
      (Inr Break, n, all_rows @ contribution n (driver n) table_id d, tr')"
    by blast
  with \<open>k = n\<close> show ?case
    by (subst pagination_loop.simps) simp
next
  case (Suc m)
  then have lt: "k < n" and adv: "advances (driver k)" by auto
  have m: "m = n - (k + 1)" using Suc.hyps(2) by simp
  have rest: "\<forall>j. k + 1 \<le> j \<and> j < n \<longrightarrow> advances (driver j)"
    using Suc.prems(1) by simp
  from Suc.hyps(1) [OF m rest Suc.prems(2,3)] lt
  obtain tr' where "pagination_loop driver table_id d (k + 1)
        (all_rows @ contribution k (driver k) table_id d)
        (tr @ [WaitFor Table, WaitFor TableRows, WaitFor NextButton, Click NextButton]) =
      Some (Inr ((all_rows @ contribution k (driver k) table_id d)
              @ concat (map (\<lambda>j. contribution j (driver j) table_id d) [k + 1..<n + 1])), tr')"
    by fastforce
  moreover have "[k..<n + 1] = k # [k + 1..<n + 1]"
    using lt by (simp add: upt_conv_Cons)
  ultimately show ?case
    by (subst pagination_loop.simps) (simp add: page_round_advances [OF adv])
qed

lemmas driver_defs = second_tbody_def second_soup_def blank_first_soup_def blank_second_soup_def
  enabled_next_def disabled_next_def view_of_def sample_driver_def blank_header_driver_def

lemma upt_from_1: "1 \<le> n \<Longrightarrow> [1..<n + 1] = 1 # [2..<n + 1]"
  by (simp add: upt_conv_Cons numeral_2_eq_2)

lemma contributions_merged:
  "concat (map (\<lambda>j. contribution j (driver j) table_id d) [1..<n + 1]) =
     merged_lines driver table_id d n" if "1 \<le> n"
proof -
  have rest: "map (\<lambda>j. contribution j (driver j) table_id d) [2..<n + 1]
      = map (\<lambda>k. drop 1 (page_lines (driver k) table_id d)) [2..<n + 1]"
    by (rule map_cong) (auto simp: contribution_def)
  have first: "contribution 1 (driver 1) table_id d = page_lines (driver 1) table_id d"
    by (simp add: contribution_def)
  show ?thesis
    unfolding merged_lines_def upt_from_1 [OF that]
    by (simp only: list.map concat.simps rest first)
qed

lemma pagination_returns:
  assumes "1 \<le> n" and "\<forall>k\<in>{1..<n}. advances (driver k)"
    and "loads (driver n)" and "\<not> advances (driver n)"
  shows "\<exists>tr'. extract_table_data_with_pagination driver table_id next_button_id d tr =
           Some (Inr (join [CHR 0x0A] (merged_lines driver table_id d n)), tr')"
proof -
  from assms(2) have "\<forall>j. 1 \<le> j \<and> j < n \<longrightarrow> advances (driver j)" by simp
  from pagination_loop_walk [OF this assms(3,4,1), of table_id d "[]" tr]
  obtain tr' where "pagination_loop driver table_id d 1 [] tr =
      Some (Inr (concat (map (\<lambda>j. contribution j (driver j) table_id d) [1..<n + 1])), tr')"
    by auto
  then have "pagination_loop driver table_id d 1 [] tr =
      Some (Inr (merged_lines driver table_id d n), tr')"
    by (simp only: contributions_merged [OF assms(1)])
  then show ?thesis
    by (auto simp: extract_table_data_with_pagination_def)
qed

lemma page_lines_parts:
  "page_lines view table_id d = view_header view table_id d @ view_body view table_id d"
proof (cases "page_source view")
  case (Inl e)
  then show ?thesis
    by (simp add: page_lines_def view_header_def view_body_def page_table_def
        extract_table_data_with_bs4_def)
next
  case (Inr soup)
  then show ?thesis
    by (cases "find_table table_id soup")
      (simp_all add: page_lines_def view_header_def view_body_def page_table_def extract_found,
       simp add: extract_table_data_with_bs4_def)
qed

lemma view_header_length: "length (view_header view table_id d) \<le> 1"
  by (simp add: view_header_def header_lines_def split: option.splits)

lemma drop_header:
  "view_header view table_id d \<noteq> [] \<Longrightarrow>
     drop 1 (page_lines view table_id d) = view_body view table_id d"
  using view_header_length [of view table_id d]
  by (cases "view_header view table_id d") (simp_all add: page_lines_parts)

lemma merged_with_headers:
  assumes "1 \<le> n" and "\<forall>k\<in>{1..n}. view_header (driver k) table_id d \<noteq> []"
  shows "merged_lines driver table_id d n =
           view_header (driver 1) table_id d
           @ concat (map (\<lambda>k. view_body (driver k) table_id d) [1..<n + 1])"
proof -
  have rest: "map (\<lambda>k. drop 1 (page_lines (driver k) table_id d)) [2..<n + 1]
      = map (\<lambda>k. view_body (driver k) table_id d) [2..<n + 1]"
    using assms(2) by (intro map_cong refl drop_header) auto
  show ?thesis
    unfolding merged_lines_def rest upt_from_1 [OF assms(1)]
    by (simp only: list.map concat.simps page_lines_parts append_assoc)
qed

lemma pagination_merge:
  assumes "1 \<le> n" and "\<forall>k\<in>{1..<n}. advances (driver k)"
    and "loads (driver n)" and "\<not> advances (driver n)"
  shows "(\<exists>tr'. extract_table_data_with_pagination driver table_id next_button_id d tr =
            Some (Inr (join [CHR 0x0A] (merged_lines driver table_id d n)), tr'))
         \<and> ((\<forall>k\<in>{1..n}. view_header (driver k) table_id d \<noteq> []) \<longrightarrow>
              length (view_header (driver 1) table_id d) = 1
              \<and> merged_lines driver table_id d n =
                  view_header (driver 1) table_id d
                  @ concat (map (\<lambda>k. view_body (driver k) table_id d) [1..<n + 1]))"
proof (intro conjI impI)
  show "\<exists>tr'. extract_table_data_with_pagination driver table_id next_button_id d tr =
            Some (Inr (join [CHR 0x0A] (merged_lines driver table_id d n)), tr')"
    using assms by (rule pagination_returns)
next
  assume h: "\<forall>k\<in>{1..n}. view_header (driver k) table_id d \<noteq> []"
  with assms(1) have "view_header (driver 1) table_id d \<noteq> []" by simp
  with view_header_length [of "driver 1" table_id d]
  show "length (view_header (driver 1) table_id d) = 1"
    by (cases "view_header (driver 1) table_id d") simp_all
  from assms(1) h show "merged_lines driver table_id d n =
      view_header (driver 1) table_id d
      @ concat (map (\<lambda>k. view_body (driver k) table_id d) [1..<n + 1])"
    by (rule merged_with_headers)
qed

lemma disabled_in: "py_in ''disabled'' ''paginate_button next disabled''"
  unfolding py_in_def by code_simp

lemma disabled_not_in: "\<not> py_in ''disabled'' ''paginate_button next''"
  unfolding py_in_def by code_simp

lemma sample_driver_walk:
  "advances (sample_driver 1) \<and> loads (sample_driver 2) \<and> \<not> advances (sample_driver 2)"
  by (simp add: advances_def loads_def driver_defs disabled_in disabled_not_in)

lemma blank_driver_walk:
  "advances (blank_header_driver 1) \<and> loads (blank_header_driver 2)
   \<and> \<not> advances (blank_header_driver 2)"
  by (simp add: advances_def loads_def driver_defs disabled_in disabled_not_in)

lemma sample_driver_lines:
  "page_lines (sample_driver 1) ''branchTable'' '';'' = [''Branch;City'', ''Head Office;Pune'']"
  "page_lines (sample_driver 2) ''branchTable'' '';''
     = [''Branch;City'', ''Depot;Nashik'', ''Yard;Thane'']"
  by (simp_all add: page_lines_def driver_defs sample_defs bs4_defs)

lemma blank_driver_lines:
  "page_lines (blank_header_driver 1) ''branchTable'' '';'' = [''Head Office;Pune'']"
  "page_lines (blank_header_driver 2) ''branchTable'' '';'' = [''Depot;Nashik'', ''Yard;Thane'']"
  by (simp_all add: page_lines_def driver_defs sample_defs bs4_defs)

lemma drop_one: "drop 1 (x # xs) = xs"
  by simp

lemma upt_1_3: "[1..<2 + 1] = [1, 2::nat]"
  by (simp add: upt_conv_Cons)

lemma upt_2_3: "[2..<2 + 1] = [2::nat]"
  by (simp add: upt_conv_Cons)

lemma sample_driver_parts:
  "view_header (sample_driver 1) ''branchTable'' '';'' = [''Branch;City'']"
  "view_header (sample_driver 2) ''branchTable'' '';'' = [''Branch;City'']"
  "view_body (sample_driver 1) ''branchTable'' '';'' = [''Head Office;Pune'']"
  "view_body (sample_driver 2) ''branchTable'' '';'' = [''Depot;Nashik'', ''Yard;Thane'']"
  by (simp_all add: view_header_def view_body_def page_table_def driver_defs sample_defs bs4_defs
      append_header_lines [of _ _ "[]", simplified, symmetric]
      append_body_lines [of _ _ "[]", simplified, symmetric])

lemma blank_driver_headers:
  "view_header (blank_header_driver 1) ''branchTable'' '';'' = []"
  "view_header (blank_header_driver 2) ''branchTable'' '';'' = []"
  by (simp_all add: view_header_def page_table_def driver_defs sample_defs bs4_defs
      append_header_lines [of _ _ "[]", simplified, symmetric])

lemma pagination_merge_example:
  "(\<exists>tr'. extract_table_data_with_pagination sample_driver ''branchTable'' ''branchTable_next''
            '';'' [] =
          Some (Inr (''Branch;City'' @ [CHR 0x0A] @ ''Head Office;Pune'' @ [CHR 0x0A]
                     @ ''Depot;Nashik'' @ [CHR 0x0A] @ ''Yard;Thane''), tr'))
   \<and> merged_lines sample_driver ''branchTable'' '';'' 2 =
       view_header (sample_driver 1) ''branchTable'' '';''
       @ [''Head Office;Pune'', ''Depot;Nashik'', ''Yard;Thane'']"
proof -
  have walk: "\<forall>k\<in>{1..<2}. advances (sample_driver k)"
  proof
    fix k :: nat
    assume "k \<in> {1..<2}"
    then have "k = 1" by auto
    then show "advances (sample_driver k)" using sample_driver_walk by simp
  qed
  have headers: "\<forall>k\<in>{1..2}. view_header (sample_driver k) ''branchTable'' '';'' \<noteq> []"
  proof
    fix k :: nat
    assume "k \<in> {1..2}"
    then have "k = 1 \<or> k = 2" by auto
    then show "view_header (sample_driver k) ''branchTable'' '';'' \<noteq> []"
      using sample_driver_parts by auto
  qed
  have lines: "merged_lines sample_driver ''branchTable'' '';'' 2 =
      [''Branch;City'', ''Head Office;Pune'', ''Depot;Nashik'', ''Yard;Thane'']"
    by (simp add: merged_lines_def upt_2_3 sample_driver_lines drop_one del: One_nat_def)
  have bodies: "concat (map (\<lambda>k. view_body (sample_driver k) ''branchTable'' '';'') [1..<2 + 1])
      = [''Head Office;Pune'', ''Depot;Nashik'', ''Yard;Thane'']"
    unfolding upt_1_3 by (simp add: sample_driver_parts del: One_nat_def)
  have le: "(1::nat) \<le> 2" by simp
  note merge = pagination_merge [where n = 2 and driver = sample_driver
      and table_id = "''branchTable''" and d = "'';''" and next_button_id = "''branchTable_next''"
      and tr = "[]", OF le walk]
  from merge sample_driver_walk
  obtain tr' where out: "extract_table_data_with_pagination sample_driver ''branchTable''
        ''branchTable_next'' '';'' [] =
      Some (Inr (join [CHR 0x0A] (merged_lines sample_driver ''branchTable'' '';'' 2)), tr')"
    by blast
  from merge sample_driver_walk headers
  have "merged_lines sample_driver ''branchTable'' '';'' 2 =
      view_header (sample_driver 1) ''branchTable'' '';''
      @ concat (map (\<lambda>k. view_body (sample_driver k) ''branchTable'' '';'') [1..<2 + 1])"
    by blast
  then have "merged_lines sample_driver ''branchTable'' '';'' 2 =
      view_header (sample_driver 1) ''branchTable'' '';''
      @ [''Head Office;Pune'', ''Depot;Nashik'', ''Yard;Thane'']"
    by (simp only: bodies)
  moreover from out have "\<exists>tr'. extract_table_data_with_pagination sample_driver ''branchTable''
        ''branchTable_next'' '';'' [] =
      Some (Inr (''Branch;City'' @ [CHR 0x0A] @ ''Head Office;Pune'' @ [CHR 0x0A]
                 @ ''Depot;Nashik'' @ [CHR 0x0A] @ ''Yard;Thane''), tr')"
    by (simp add: lines del: One_nat_def)
  ultimately show ?thesis by blast
qed

text \<open>
  C1. On a walk over two pages whose tables both have a header of blank cells, the extractor gives
  no header line for either page, and the walker still drops line index 0 of page 2, which is the
  data row \<open>Depot;Nashik\<close>. The output is \<open>Head Office;Pune\<close> and \<open>Yard;Thane\<close>: it holds no
  header line and has lost a body row.
\<close>

theorem pagination_drops_row_after_blank_header:
  "map_option fst (extract_table_data_with_pagination blank_header_driver ''branchTable''
       ''branchTable_next'' '';'' [])
     = Some (Inr (''Head Office;Pune'' @ [CHR 0x0A] @ ''Yard;Thane''))
   \<and> view_header (blank_header_driver 1) ''branchTable'' '';'' = []
   \<and> view_header (blank_header_driver 2) ''branchTable'' '';'' = []
   \<and> page_lines (blank_header_driver 2) ''branchTable'' '';'' = [''Depot;Nashik'', ''Yard;Thane'']"
proof -
  have walk: "\<forall>k\<in>{1..<2}. advances (blank_header_driver k)"
  proof
    fix k :: nat
    assume "k \<in> {1..<2}"
    then have "k = 1" by auto
    then show "advances (blank_header_driver k)" using blank_driver_walk by simp
  qed
  have lines: "merged_lines blank_header_driver ''branchTable'' '';'' 2 =
      [''Head Office;Pune'', ''Yard;Thane'']"
    by (simp add: merged_lines_def upt_2_3 blank_driver_lines drop_one del: One_nat_def)
  have le: "(1::nat) \<le> 2" by simp
  from pagination_returns [where n = 2 and driver = blank_header_driver
      and table_id = "''branchTable''" and d = "'';''" and next_button_id = "''branchTable_next''"
      and tr = "[]", OF le walk] blank_driver_walk
  obtain tr' where "extract_table_data_with_pagination blank_header_driver ''branchTable''
        ''branchTable_next'' '';'' [] =
      Some (Inr (join [CHR 0x0A] (merged_lines blank_header_driver ''branchTable'' '';'' 2)), tr')"
    by blast
  then show ?thesis
    by (simp add: lines blank_driver_headers blank_driver_lines del: One_nat_def)
qed

section \<open>Properties of the CAPTCHA solver\<close>

lemmas service_defs = refused_service_def unauthorized_def unauthorized_service_def
  not_modified_def not_modified_service_def

text \<open>
  C8. Without an image \<open>solve_captcha_with_gpt4\<close> returns \<open>None\<close> and makes no request. With an
  image, when the request raises or the response has a status from 400 to 599, it raises
  \<open>IECScraperException\<close> with the message \<open>GPT-4 API error: \<close> followed by the text of the error.
\<close>

theorem solve_captcha_failures:
  "solve_captcha_with_gpt4 None service tr = (Inr None, tr @ [Solve])
   \<and> (save_png service = None \<longrightarrow>
        (\<forall>e. post service = Inl e \<longrightarrow>
           solve_captcha_with_gpt4 (Some img) service tr =
             (Inl (Exn IECScraperException (''GPT-4 API error: '' @ str_exn e)),
              tr @ [Solve, HttpPost]))
        \<and> (\<forall>response. post service = Inr response
              \<and> 400 \<le> status_code response \<and> status_code response < 600 \<longrightarrow>
           solve_captcha_with_gpt4 (Some img) service tr =
             (Inl (Exn IECScraperException (''GPT-4 API error: '' @ error_line response)),
              tr @ [Solve, HttpPost])))"
  by (simp add: solve_captcha_with_gpt4_def post_and_read_def raise_for_status_def
      isinstance_Exception)

text \<open>
  A refused connection and a response with status 401.
\<close>

theorem solve_captcha_failures_witness:
  "solve_captcha_with_gpt4 None refused_service [] = (Inr None, [Solve])
   \<and> solve_captcha_with_gpt4 (Some (Image 200 60)) refused_service [] =
       (Inl (Exn IECScraperException ''GPT-4 API error: Connection refused''), [Solve, HttpPost])
   \<and> solve_captcha_with_gpt4 (Some (Image 200 60)) unauthorized_service [] =
       (Inl (Exn IECScraperException ''GPT-4 API error: 401 Client Error: Unauthorized''),
        [Solve, HttpPost])"
  using solve_captcha_failures [of refused_service "[]" "Image 200 60"]
    solve_captcha_failures [of unauthorized_service "[]" "Image 200 60"]
  by (simp add: service_defs)

text \<open>
  A response with status 304 and a well-formed body is read like a success: \<open>raise_for_status\<close>
  does not raise for it.
\<close>

theorem solve_captcha_not_modified_counterexample:
  "solve_captcha_with_gpt4 (Some (Image 200 60)) not_modified_service [] =
     (Inr (Some ''AB12''), [Solve, HttpPost])
   \<and> post not_modified_service = Inr not_modified
   \<and> status_code not_modified = 304
   \<and> \<not> is_2xx not_modified"
  by (simp add: solve_captcha_with_gpt4_def post_and_read_def raise_for_status_def
      service_defs is_2xx_def strip_def isspace_def)

section \<open>Properties of the CAPTCHA resolution loop\<close>

lemma run_calls_trace: "run_calls calls tr = (r, tr') \<Longrightarrow> \<exists>new. tr' = tr @ new \<and> set new \<subseteq> fst ` set calls"
proof (induction calls arbitrary: tr)
  case Nil
  then show ?case by simp
next
  case (Cons c calls)
  obtain ev outcome where c: "c = (ev, outcome)" by (cases c)
  show ?case
  proof (cases outcome)
    case None
    with Cons.prems c have "run_calls calls (tr @ [ev]) = (r, tr')" by simp
    from Cons.IH [OF this] obtain new where "tr' = (tr @ [ev]) @ new" "set new \<subseteq> fst ` set calls"
      by blast
    with c show ?thesis by (intro exI [of _ "ev # new"]) auto
  next
    case (Some e)
    with Cons.prems c show ?thesis by (intro exI [of _ "[ev]"]) auto
  qed
qed

lemma capture_trace:
  "capture_captcha_section body tr = (r, tr') \<Longrightarrow> tr' = tr @ [WaitFor CaptchaImage]"
  by (auto simp: capture_captcha_section_def split: sum.splits if_splits)

lemma solve_trace:
  "solve_captcha_with_gpt4 img service tr = (r, tr') \<Longrightarrow>
     tr' = tr @ [Solve] \<or> tr' = tr @ [Solve, HttpPost]"
  by (auto simp: solve_captcha_with_gpt4_def split: option.splits sum.splits if_splits)

lemma solve_none: "solve_captcha_with_gpt4 None service tr = (Inr None, tr @ [Solve])"
  by (simp add: solve_captcha_with_gpt4_def)

lemma check_success_trace:
  "check_success heading tr = (r, tr') \<Longrightarrow> tr' = tr @ [WaitFor SuccessHeading]"
  by (auto simp: check_success_def Let_def split: sum.splits if_splits)

lemma check_success_exit: "check_success heading tr = (r, tr') \<Longrightarrow> r \<noteq> Inr ContinueLoop"
  by (auto simp: check_success_def Let_def split: sum.splits if_splits)

lemma attempt_try_shape:
  assumes "attempt_try view attempt tr = (r, a, tr')"
  shows "\<exists>pre sub. tr' = tr @ [WaitFor CaptchaImage] @ pre @ sub
           \<and> (pre = [] \<or> pre = [Solve] \<or> pre = [Solve, HttpPost])
           \<and> (\<forall>ev\<in>set sub. ev \<noteq> Solve \<and> ev \<noteq> HttpPost)
           \<and> (r = Inr ContinueLoop \<longrightarrow> sub = [] \<and> a = attempt + 1)
           \<and> (r \<noteq> Inr ContinueLoop \<longrightarrow> a = attempt)"
proof -
  obtain c tr1 where cap: "capture_captcha_section (capture view) tr = (c, tr1)"
    by (cases "capture_captcha_section (capture view) tr")
  then have tr1: "tr1 = tr @ [WaitFor CaptchaImage]" by (rule capture_trace)
  show ?thesis
  proof (cases c)
    case (Inl e)
    with cap have "attempt_try view attempt tr = (Inl e, attempt, tr1)"
      by (simp add: attempt_try_def del: run_calls.simps)
    with assms tr1 show ?thesis
      by (intro exI [of _ "[]"]) auto
  next
    case img: (Inr captcha_image)
    obtain s tr2 where sol: "solve_captcha_with_gpt4 captcha_image (solver view) tr1 = (s, tr2)"
      by (cases "solve_captcha_with_gpt4 captcha_image (solver view) tr1")
    from solve_trace [OF sol] obtain pre where tr2: "tr2 = tr1 @ pre"
      and pre: "pre = [Solve] \<or> pre = [Solve, HttpPost]"
      by blast
    show ?thesis
    proof (cases s)
      case (Inl e)
      with cap img sol have "attempt_try view attempt tr = (Inl e, attempt, tr2)"
        by (simp add: attempt_try_def del: run_calls.simps)
      with assms tr1 tr2 pre show ?thesis
        by (intro exI [of _ pre] exI [of _ "[]"]) auto
    next
      case answer: (Inr captcha_text)
      show ?thesis
      proof (cases "text_missing captcha_text")
        case True
        with cap img sol answer
        have "attempt_try view attempt tr = (Inr ContinueLoop, attempt + 1, tr2)"
          by (simp add: attempt_try_def del: run_calls.simps)
        with assms tr1 tr2 pre show ?thesis
          by (intro exI [of _ pre] exI [of _ "[]"]) auto
      next
        case False
        let ?calls = "[(WaitFor CaptchaInput, input_wait view),
            (Clear CaptchaInput, input_clear view),
            (SendKeys CaptchaInput (JStr (case captcha_text of Some s \<Rightarrow> s | None \<Rightarrow> [])),
             input_send_keys view),
            (WaitFor SubmitButton, submit_wait view),
            (Click SubmitButton, submit_click view)]"
        obtain x tr3 where calls: "run_calls ?calls tr2 = (x, tr3)"
          by (cases "run_calls ?calls tr2")
        from run_calls_trace [OF calls] obtain new where tr3: "tr3 = tr2 @ new"
          and new: "set new \<subseteq> fst ` set ?calls"
          by blast
        from new have clean: "\<forall>ev\<in>set new. ev \<noteq> Solve \<and> ev \<noteq> HttpPost"
          by auto
        show ?thesis
        proof (cases x)
          case (Some e)
          with cap img sol answer False calls
          have "attempt_try view attempt tr = (Inl e, attempt, tr3)"
            by (simp add: attempt_try_def del: run_calls.simps)
          with assms have "r = Inl e" "a = attempt" "tr' = tr3"
            by auto
          then have "tr' = tr @ [WaitFor CaptchaImage] @ pre @ new"
            and "r \<noteq> Inr ContinueLoop" and "a = attempt"
            using tr1 tr2 tr3 by simp_all
          moreover from pre have "pre = [] \<or> pre = [Solve] \<or> pre = [Solve, HttpPost]"
            by blast
          ultimately show ?thesis
            using clean by blast
        next
          case None
          obtain y tr4 where chk: "check_success (success_wait view) tr3 = (y, tr4)"
            by (cases "check_success (success_wait view) tr3")
          with cap img sol answer False calls None
          have "attempt_try view attempt tr = (y, attempt, tr4)"
            by (simp add: attempt_try_def del: run_calls.simps)
          with assms have res: "r = y" "a = attempt" "tr' = tr4"
            by auto
          from check_success_trace [OF chk] have tr4: "tr4 = tr3 @ [WaitFor SuccessHeading]" .
          from check_success_exit [OF chk] res have "r \<noteq> Inr ContinueLoop" by simp
          moreover from res tr1 tr2 tr3 tr4
          have "tr' = tr @ [WaitFor CaptchaImage] @ pre @ (new @ [WaitFor SuccessHeading])"
            by simp
          moreover from clean
          have "\<forall>ev\<in>set (new @ [WaitFor SuccessHeading]). ev \<noteq> Solve \<and> ev \<noteq> HttpPost"
            by simp
          moreover from pre have "pre = [] \<or> pre = [Solve] \<or> pre = [Solve, HttpPost]"
            by blast
          ultimately show ?thesis
            using res(2) by blast
        qed
      qed
    qed
  qed
qed

lemma count_list_clean: "\<forall>ev\<in>set xs. ev \<noteq> x \<Longrightarrow> count_list xs x = 0"
  by (induction xs) auto

lemma attempt_round_shape:
  assumes "attempt_round view attempt tr = (x, a, tr')"
  shows "(x = None \<and> a = attempt + 1 \<or> x = Some (Inr True) \<and> a = attempt)
         \<and> count_list tr' Solve \<le> count_list tr Solve + 1
         \<and> count_list tr' HttpPost \<le> count_list tr HttpPost + 1
         \<and> (fails view \<longrightarrow> x = None)"
proof -
  obtain r a0 tr0 where body: "attempt_try view attempt tr = (r, a0, tr0)"
    by (cases "attempt_try view attempt tr")
  from attempt_try_shape [OF body] obtain pre sub where
    tr0: "tr0 = tr @ [WaitFor CaptchaImage] @ pre @ sub" and
    pre: "pre = [] \<or> pre = [Solve] \<or> pre = [Solve, HttpPost]" and
    sub: "\<forall>ev\<in>set sub. ev \<noteq> Solve \<and> ev \<noteq> HttpPost" and
    cont: "r = Inr ContinueLoop \<longrightarrow> sub = [] \<and> a0 = attempt + 1" and
    other: "r \<noteq> Inr ContinueLoop \<longrightarrow> a0 = attempt"
    by blast
  from sub have "count_list sub Solve = 0" "count_list sub HttpPost = 0"
    by (simp_all add: count_list_clean)
  with pre tr0 have c0: "count_list tr0 Solve \<le> count_list tr Solve + 1"
      "count_list tr0 HttpPost \<le> count_list tr HttpPost + 1"
    by auto
  have verified: "r \<noteq> Inr ReturnTrue" if "fails view"
  proof -
    from that have "fst (attempt_try view attempt tr) \<noteq> Inr ReturnTrue"
      unfolding fails_def by blast
    with body show ?thesis by simp
  qed
  show ?thesis
  proof (cases r)
    case (Inl e)
    with body other
    have "attempt_round view attempt tr = (None, attempt + 1,
        tr0 @ [Print (''Attempt '' @ str_nat (attempt + 1) @ '' error: '' @ str_exn e)])"
      by (simp add: attempt_round_def isinstance_Exception)
    with assms c0 show ?thesis by auto
  next
    case (Inr exit)
    show ?thesis
    proof (cases exit)
      case ContinueLoop
      with Inr body cont have "attempt_round view attempt tr = (None, attempt + 1, tr0)"
        by (simp add: attempt_round_def)
      with assms c0 show ?thesis by auto
    next
      case ReturnTrue
      with Inr body other have "attempt_round view attempt tr = (Some (Inr True), attempt, tr0)"
        by (simp add: attempt_round_def)
      with assms c0 verified Inr ReturnTrue show ?thesis by auto
    next
      case EndOfTry
      with Inr body other have "attempt_round view attempt tr = (None, attempt + 1, tr0)"
        by (simp add: attempt_round_def)
      with assms c0 show ?thesis by auto
    qed
  qed
qed

lemma captcha_loop_result:
  "\<exists>b tr'. captcha_loop driver round attempt tr = (Inr b, tr')
     \<and> count_list tr' Solve \<le> count_list tr Solve + (max_attempts - attempt)
     \<and> count_list tr' HttpPost \<le> count_list tr HttpPost + (max_attempts - attempt)
     \<and> ((\<forall>k. round \<le> k \<and> k < round + (max_attempts - attempt) \<longrightarrow> fails (driver k))
          \<longrightarrow> \<not> b)"
proof (induction driver round attempt tr rule: captcha_loop.induct)
  case (1 driver round attempt tr)
  show ?case
  proof (cases "attempt < max_attempts")
    case False
    then have "captcha_loop driver round attempt tr = (Inr False, tr)"
      by (subst captcha_loop.simps) simp
    then show ?thesis
      by (intro exI [of _ False] exI [of _ tr]) simp
  next
    case True
    obtain x a tr1 where rnd: "attempt_round (driver round) attempt tr = (x, a, tr1)"
      by (cases "attempt_round (driver round) attempt tr")
    from attempt_round_shape [OF rnd] have
      exits: "x = None \<and> a = attempt + 1 \<or> x = Some (Inr True) \<and> a = attempt" and
      c1: "count_list tr1 Solve \<le> count_list tr Solve + 1"
          "count_list tr1 HttpPost \<le> count_list tr HttpPost + 1" and
      failing: "fails (driver round) \<longrightarrow> x = None"
      by blast+
    show ?thesis
    proof (cases x)
      case (Some r)
      with exits have r: "r = Inr True" by simp
      with Some rnd True have "captcha_loop driver round attempt tr = (Inr True, tr1)"
        by (subst captcha_loop.simps) simp
      moreover from Some failing have "\<not> fails (driver round)" by simp
      moreover from True have "round < round + (max_attempts - attempt)" by simp
      ultimately show ?thesis
        using c1 True by (intro exI [of _ True] exI [of _ tr1]) auto
    next
      case None
      with exits have a: "a = attempt + 1" by simp
      from "1.IH" [OF True rnd [symmetric] None refl] a
      obtain b tr' where
        loop: "captcha_loop driver (round + 1) (attempt + 1) tr1 = (Inr b, tr')" and
        c2: "count_list tr' Solve \<le> count_list tr1 Solve + (max_attempts - (attempt + 1))"
            "count_list tr' HttpPost \<le> count_list tr1 HttpPost + (max_attempts - (attempt + 1))" and
        f2: "(\<forall>k. round + 1 \<le> k \<and> k < round + 1 + (max_attempts - (attempt + 1))
                \<longrightarrow> fails (driver k)) \<longrightarrow> \<not> b"
        by blast
      from None rnd True a loop
      have "captcha_loop driver round attempt tr = (Inr b, tr')"
        by (subst captcha_loop.simps) simp
      moreover from c1 c2 True
      have "count_list tr' Solve \<le> count_list tr Solve + (max_attempts - attempt)"
        "count_list tr' HttpPost \<le> count_list tr HttpPost + (max_attempts - attempt)"
        by simp_all
      moreover have "\<not> b"
        if "\<forall>k. round \<le> k \<and> k < round + (max_attempts - attempt) \<longrightarrow> fails (driver k)"
      proof -
        have "fails (driver k)"
          if "round + 1 \<le> k \<and> k < round + 1 + (max_attempts - (attempt + 1))" for k
        proof -
          from that True have "round \<le> k \<and> k < round + (max_attempts - attempt)"
            by arith
          with \<open>\<forall>k. round \<le> k \<and> k < round + (max_attempts - attempt) \<longrightarrow> fails (driver k)\<close>
          show ?thesis by blast
        qed
        then have "\<forall>k. round + 1 \<le> k \<and> k < round + 1 + (max_attempts - (attempt + 1))
            \<longrightarrow> fails (driver k)"
          by blast
        with f2 show ?thesis by blast
      qed
      ultimately show ?thesis by blast
    qed
  qed
qed

lemmas captcha_defs = crashed_view_def empty_answer_def blank_answer_view_def

lemma crashed_view_fails: "fails crashed_view"
  by (simp add: fails_def attempt_try_def capture_captcha_section_def crashed_view_def)

text \<open>
  C2. \<open>handle_captcha_submission\<close> always returns a boolean, so no exception of an attempt reaches
  the caller, after at most 5 calls of the solver and at most 5 requests to the service; one round
  of the loop makes at most one of each. When each of the five rounds fails, by an exception or
  by a missing success heading, the result is \<open>False\<close>.
\<close>

theorem captcha_attempts_bounded:
  "(\<exists>b tr'. handle_captcha_submission driver tr = (Inr b, tr')
       \<and> count_list tr' Solve \<le> count_list tr Solve + 5
       \<and> count_list tr' HttpPost \<le> count_list tr HttpPost + 5
       \<and> ((\<forall>k<5. fails (driver k)) \<longrightarrow> b = False))
   \<and> (\<forall>x a tr1. attempt_round view attempt tr = (x, a, tr1) \<longrightarrow>
         count_list tr1 Solve \<le> count_list tr Solve + 1
         \<and> count_list tr1 HttpPost \<le> count_list tr HttpPost + 1)"
proof (intro conjI allI impI)
  from captcha_loop_result [of driver 0 0 tr]
  obtain b tr' where
    "captcha_loop driver 0 0 tr = (Inr b, tr')"
    "count_list tr' Solve \<le> count_list tr Solve + (max_attempts - 0)"
    "count_list tr' HttpPost \<le> count_list tr HttpPost + (max_attempts - 0)"
    "(\<forall>k. 0 \<le> k \<and> k < 0 + (max_attempts - 0) \<longrightarrow> fails (driver k)) \<longrightarrow> \<not> b"
    by blast
  then show "\<exists>b tr'. handle_captcha_submission driver tr = (Inr b, tr')
       \<and> count_list tr' Solve \<le> count_list tr Solve + 5
       \<and> count_list tr' HttpPost \<le> count_list tr HttpPost + 5
       \<and> ((\<forall>k<5. fails (driver k)) \<longrightarrow> b = False)"
    by (intro exI [of _ b] exI [of _ tr']) (simp add: handle_captcha_submission_def max_attempts_def)
next
  fix x a tr1
  assume "attempt_round view attempt tr = (x, a, tr1)"
  from attempt_round_shape [OF this]
  show "count_list tr1 Solve \<le> count_list tr Solve + 1"
    and "count_list tr1 HttpPost \<le> count_list tr HttpPost + 1"
    by blast+
qed

text \<open>
  A browser that raises in every round at the capture of the image.
\<close>

theorem captcha_attempts_bounded_witness:
  "\<exists>tr'. handle_captcha_submission (\<lambda>k. crashed_view) [] = (Inr False, tr')
       \<and> count_list tr' Solve \<le> 5 \<and> count_list tr' HttpPost \<le> 5"
  using captcha_attempts_bounded [of "\<lambda>k. crashed_view" "[]" crashed_view 0] crashed_view_fails
  by auto

lemma digit_chars:
  "char_of (49::nat) = CHR ''1''" "char_of (50::nat) = CHR ''2''" "char_of (51::nat) = CHR ''3''"
  "char_of (52::nat) = CHR ''4''" "char_of (53::nat) = CHR ''5''"
  by code_simp+

lemma crashed_run:
  "handle_captcha_submission (\<lambda>k. crashed_view) [] =
     (Inr False,
      [WaitFor CaptchaImage, Print (''Attempt 1 error: Message: chrome not reachable'' @ [CHR 0x0A]),
       WaitFor CaptchaImage, Print (''Attempt 2 error: Message: chrome not reachable'' @ [CHR 0x0A]),
       WaitFor CaptchaImage, Print (''Attempt 3 error: Message: chrome not reachable'' @ [CHR 0x0A]),
       WaitFor CaptchaImage, Print (''Attempt 4 error: Message: chrome not reachable'' @ [CHR 0x0A]),
       WaitFor CaptchaImage, Print (''Attempt 5 error: Message: chrome not reachable'' @ [CHR 0x0A])])"
  by (simp add: handle_captcha_submission_def captcha_loop.simps attempt_round_def attempt_try_def
      capture_captcha_section_def crashed_view_def max_attempts_def str_nat.simps digit_chars)

text \<open>
  C9. In a round of the loop where the solver returns no text or an empty text, the attempt
  counter goes up by exactly one, the calls made in the round touch neither the CAPTCHA input
  nor the submit button, and the loop goes on with the next round.
\<close>

theorem blank_text_round:
  assumes "capture_captcha_section (capture (driver round)) tr = (Inr img, tr1)"
    and "solve_captcha_with_gpt4 img (solver (driver round)) tr1 = (Inr answer, tr2)"
    and "text_missing answer"
  shows "attempt_round (driver round) attempt tr = (None, attempt + 1, tr2)
         \<and> (\<exists>new. tr2 = tr @ new \<and> (\<forall>ev\<in>set new. \<not> submission_event ev))
         \<and> (attempt < max_attempts \<longrightarrow>
              captcha_loop driver round attempt tr = captcha_loop driver (round + 1) (attempt + 1) tr2)"
proof (intro conjI impI)
  from assms have body: "attempt_try (driver round) attempt tr = (Inr ContinueLoop, attempt + 1, tr2)"
    by (simp add: attempt_try_def)
  then show rnd: "attempt_round (driver round) attempt tr = (None, attempt + 1, tr2)"
    by (simp add: attempt_round_def)
  from capture_trace [OF assms(1)] solve_trace [OF assms(2)]
  have "tr2 = tr @ [WaitFor CaptchaImage, Solve] \<or> tr2 = tr @ [WaitFor CaptchaImage, Solve, HttpPost]"
    by auto
  then show "\<exists>new. tr2 = tr @ new \<and> (\<forall>ev\<in>set new. \<not> submission_event ev)"
    by (auto simp: submission_event_def)
  assume "attempt < max_attempts"
  with rnd show "captcha_loop driver round attempt tr
      = captcha_loop driver (round + 1) (attempt + 1) tr2"
    by (subst captcha_loop.simps) simp
qed

lemma blank_answer_steps:
  "capture_captcha_section (capture blank_answer_view) [] = (Inr (Some (Image 200 60)), [WaitFor CaptchaImage])"
  "solve_captcha_with_gpt4 (Some (Image 200 60)) (solver blank_answer_view) [WaitFor CaptchaImage]
     = (Inr (Some []), [WaitFor CaptchaImage, Solve, HttpPost])"
  by (simp_all add: capture_captcha_section_def solve_captcha_with_gpt4_def post_and_read_def
      raise_for_status_def captcha_defs strip_def isspace_def)

text \<open>
  A service that answers with two spaces: the stripped text is empty.
\<close>

theorem blank_text_round_witness:
  "attempt_round blank_answer_view 0 [] = (None, 1, [WaitFor CaptchaImage, Solve, HttpPost])
   \<and> captcha_loop (\<lambda>k. blank_answer_view) 0 0 []
       = captcha_loop (\<lambda>k. blank_answer_view) 1 1 [WaitFor CaptchaImage, Solve, HttpPost]"
  using blank_text_round [of "\<lambda>k. blank_answer_view" 0 "[]" "Some (Image 200 60)"
      "[WaitFor CaptchaImage]" "Some []" "[WaitFor CaptchaImage, Solve, HttpPost]" 0]
    blank_answer_steps
  by (simp add: max_attempts_def)

section \<open>Properties of the request handler\<close>

lemma attempt_round_prefix:
  assumes "attempt_round view attempt tr = (x, a, tr')"
  shows "prefix tr tr'"
proof -
  obtain r a0 tr0 where body: "attempt_try view attempt tr = (r, a0, tr0)"
    by (cases "attempt_try view attempt tr")
  from attempt_try_shape [OF body] have p0: "prefix tr tr0"
    by (auto simp: prefix_def)
  have "tr' = tr0 \<or> (\<exists>line. tr' = tr0 @ [Print line])"
  proof (cases r)
    case (Inl e)
    with body assms show ?thesis
      by (auto simp: attempt_round_def isinstance_Exception)
  next
    case (Inr exit)
    with body assms show ?thesis
      by (cases exit) (auto simp: attempt_round_def)
  qed
  with p0 show ?thesis
    by (auto simp: prefix_def)
qed

lemma captcha_loop_prefix:
  "captcha_loop driver round attempt tr = (r, tr') \<Longrightarrow> prefix tr tr'"
proof (induction driver round attempt tr rule: captcha_loop.induct)
  case (1 driver round attempt tr)
  show ?case
  proof (cases "attempt < max_attempts")
    case False
    with "1.prems" show ?thesis
      by (subst (asm) captcha_loop.simps) simp
  next
    case True
    obtain x a tr1 where rnd: "attempt_round (driver round) attempt tr = (x, a, tr1)"
      by (cases "attempt_round (driver round) attempt tr")
    from attempt_round_prefix [OF rnd] have p1: "prefix tr tr1" .
    show ?thesis
    proof (cases x)
      case (Some y)
      with "1.prems" True rnd have "tr' = tr1"
        by (subst (asm) captcha_loop.simps) simp
      with p1 show ?thesis by simp
    next
      case None
      with "1.prems" True rnd have "captcha_loop driver (round + 1) a tr1 = (r, tr')"
        by (subst (asm) captcha_loop.simps) simp
      from "1.IH" [OF True rnd [symmetric] None refl this] p1 show ?thesis
        by (rule prefix_order.trans [rotated])
    qed
  qed
qed

lemma handle_captcha_prefix:
  "handle_captcha_submission driver tr = (r, tr') \<Longrightarrow> prefix tr tr'"
  unfolding handle_captcha_submission_def by (rule captcha_loop_prefix)

lemma exhausted_returns_false:
  assumes "\<forall>k<5. fails (driver k)"
  shows "fst (handle_captcha_submission driver tr) = Inr False"
proof -
  from captcha_loop_result [of driver 0 0 tr] obtain b tr' where
    "captcha_loop driver 0 0 tr = (Inr b, tr')"
    "(\<forall>k. 0 \<le> k \<and> k < 0 + (max_attempts - 0) \<longrightarrow> fails (driver k)) \<longrightarrow> \<not> b"
    by blast
  with assms show ?thesis
    by (simp add: handle_captcha_submission_def max_attempts_def)
qed

lemma extract_iec_details_prefix:
  "extract_iec_details groups tr = (r, tr') \<Longrightarrow> prefix tr tr'"
  by (auto simp: extract_iec_details_def split: sum.splits if_splits)

lemma check_next_button_prefix:
  "check_next_button lookup tr = (r, tr') \<Longrightarrow> prefix tr tr'"
  by (auto simp: check_next_button_def Let_def split: sum.splits option.splits if_splits)

lemma run_calls_prefix: "run_calls calls tr = (r, tr') \<Longrightarrow> prefix tr tr'"
  using run_calls_trace [of calls tr r tr'] by (auto simp: prefix_def)

lemma page_round_prefix:
  assumes "page_round view table_id d page rows tr = (r, page', rows', tr')"
  shows "prefix tr tr'"
proof -
  obtain w tr1 where calls:
    "run_calls [(WaitFor Table, table_wait view), (WaitFor TableRows, rows_wait view)] tr = (w, tr1)"
    by (cases "run_calls [(WaitFor Table, table_wait view), (WaitFor TableRows, rows_wait view)] tr")
  from run_calls_prefix [OF calls] have p1: "prefix tr tr1" .
  obtain b tr2 where button: "check_next_button (next_wait view) tr1 = (b, tr2)"
    by (cases "check_next_button (next_wait view) tr1")
  from check_next_button_prefix [OF button] p1 have p2: "prefix tr tr2"
    by (rule prefix_order.trans [rotated])
  from assms calls button have "tr' = tr1 \<or> tr' = tr2 \<or> (\<exists>line. tr' = tr1 @ [Print line])
      \<or> (\<exists>line. tr' = tr2 @ [Print line])"
    unfolding page_round_def Let_def
    by (auto simp del: run_calls.simps split: option.splits sum.splits if_splits loop_exit.splits)
  with p1 p2 show ?thesis
    by (auto simp: prefix_def)
qed

lemma pagination_loop_prefix:
  assumes "pagination_loop driver table_id d page rows tr = Some y"
  shows "prefix tr (snd y)"
proof (rule pagination_loop.raw_induct
         [where P = "\<lambda>driver table_id d page rows tr y. prefix tr (snd y)", OF _ assms], goal_cases)
  case (1 loop driver table_id d page rows tr y)
  obtain x page' rows' tr1 where rnd:
    "page_round (driver page) table_id d page rows tr = (x, page', rows', tr1)"
    by (cases "page_round (driver page) table_id d page rows tr")
  from page_round_prefix [OF rnd] have p1: "prefix tr tr1" .
  show ?case
  proof (cases x)
    case (Inl e)
    with 1(2) rnd p1 show ?thesis by auto
  next
    case (Inr exit)
    show ?thesis
    proof (cases exit)
      case Break
      with Inr 1(2) rnd p1 show ?thesis by auto
    next
      case Again
      with Inr 1(2) rnd have "loop driver table_id d page' rows' tr1 = Some y" by simp
      from 1(1) [OF this] p1 show ?thesis
        by (rule prefix_order.trans [rotated])
    qed
  qed
qed

lemma pagination_prefix:
  "extract_table_data_with_pagination driver table_id next_id d tr = Some (r, tr') \<Longrightarrow> prefix tr tr'"
  by (auto simp: extract_table_data_with_pagination_def
           split: option.splits sum.splits prod.splits dest: pagination_loop_prefix)

lemma lookup_steps_prefix:
  assumes "lookup_steps view iec_code name tr = Some (r, tr')"
  shows "prefix tr tr'"
proof -
  let ?calls = "[(Get ''https://dgft.gov.in/CP/?opt=view-any-ice'', page_get view),
              (WaitFor ViewAnyIecButton, view_button_wait view),
              (Click ViewAnyIecButton, view_button_click view),
              (WaitFor IecInput, iec_input_wait view),
              (Find NameInput, name_input_find view),
              (SendKeys IecInput iec_code, iec_send_keys view),
              (SendKeys NameInput name, name_send_keys view)]"
  obtain w tr1 where calls: "run_calls ?calls tr = (w, tr1)"
    by (cases "run_calls ?calls tr")
  from run_calls_prefix [OF calls] have p1: "prefix tr tr1" .
  obtain c tr2 where captcha: "handle_captcha_submission (captcha_rounds view) tr1 = (c, tr2)"
    by (cases "handle_captcha_submission (captcha_rounds view) tr1")
  from handle_captcha_prefix [OF captcha] p1 have p2: "prefix tr tr2"
    by (rule prefix_order.trans [rotated])
  obtain dt tr3 where details: "extract_iec_details (form_groups view) tr2 = (dt, tr3)"
    by (cases "extract_iec_details (form_groups view) tr2")
  from extract_iec_details_prefix [OF details] p2 have p3: "prefix tr tr3"
    by (rule prefix_order.trans [rotated])
  have p4: "prefix tr tr4"
    if "extract_table_data_with_pagination (branch_pages view) ''branchTable'' ''branchTable_next'' '';'' tr3
          = Some (b, tr4)" for b tr4
    using pagination_prefix [OF that] p3 by (rule prefix_order.trans [rotated])
  from assms calls captcha details have "tr' = tr1 \<or> tr' = tr2 \<or> tr' = tr3
    \<or> (\<exists>b. extract_table_data_with_pagination (branch_pages view) ''branchTable'' ''branchTable_next'' '';'' tr3
          = Some (b, tr'))"
    unfolding lookup_steps_def
    by (auto simp del: run_calls.simps split: option.splits sum.splits if_splits)
  with p1 p2 p3 p4 show ?thesis by blast
qed

lemma lookup_steps_form_calls:
  assumes "form_filled view" and "lookup_steps view iec_code name [CreateDriver] = Some (r, tr')"
  shows "prefix (form_calls iec_code name) tr'"
proof -
  let ?calls = "[(Get ''https://dgft.gov.in/CP/?opt=view-any-ice'', page_get view),
              (WaitFor ViewAnyIecButton, view_button_wait view),
              (Click ViewAnyIecButton, view_button_click view),
              (WaitFor IecInput, iec_input_wait view),
              (Find NameInput, name_input_find view),
              (SendKeys IecInput iec_code, iec_send_keys view),
              (SendKeys NameInput name, name_send_keys view)]"
  from assms(1) have calls: "run_calls ?calls [CreateDriver] = (None, form_calls iec_code name)"
    by (simp add: form_filled_def form_calls_def)
  obtain c tr2 where captcha:
    "handle_captcha_submission (captcha_rounds view) (form_calls iec_code name) = (c, tr2)"
    by (cases "handle_captcha_submission (captcha_rounds view) (form_calls iec_code name)")
  from handle_captcha_prefix [OF captcha] have p2: "prefix (form_calls iec_code name) tr2" .
  obtain dt tr3 where details: "extract_iec_details (form_groups view) tr2 = (dt, tr3)"
    by (cases "extract_iec_details (form_groups view) tr2")
  from extract_iec_details_prefix [OF details] p2 have p3: "prefix (form_calls iec_code name) tr3"
    by (rule prefix_order.trans [rotated])
  have p4: "prefix (form_calls iec_code name) tr4"
    if "extract_table_data_with_pagination (branch_pages view) ''branchTable'' ''branchTable_next'' '';'' tr3
          = Some (b, tr4)" for b tr4
    using pagination_prefix [OF that] p3 by (rule prefix_order.trans [rotated])
  from assms(2) calls captcha details have "tr' = tr2 \<or> tr' = tr3
    \<or> (\<exists>b. extract_table_data_with_pagination (branch_pages view) ''branchTable'' ''branchTable_next'' '';'' tr3
          = Some (b, tr'))"
    unfolding lookup_steps_def
    by (auto simp del: run_calls.simps split: option.splits sum.splits if_splits)
  with p2 p3 p4 show ?thesis by blast
qed

lemma present_keys_accepted:
  assumes "map_of kvs ''iec_code'' = Some a" and "map_of kvs ''name'' = Some b"
  shows "missing_parameters (JObj kvs) = Inr False"
proof -
  from assms(1) have "(''iec_code'', a) \<in> set kvs" by (rule map_of_SomeD)
  then have c: "''iec_code'' \<in> fst ` set kvs" by force
  from assms(2) have "(''name'', b) \<in> set kvs" by (rule map_of_SomeD)
  then have n: "''name'' \<in> fst ` set kvs" by force
  from c have "kvs \<noteq> []" by auto
  with c n show ?thesis by (simp add: missing_parameters_def)
qed

lemma lookup_steps_response:
  assumes "lookup_steps view iec_code name tr = Some (Inr resp, tr')"
  shows "resp = captcha_response \<or> snd resp = 200"
proof -
  let ?calls = "[(Get ''https://dgft.gov.in/CP/?opt=view-any-ice'', page_get view),
              (WaitFor ViewAnyIecButton, view_button_wait view),
              (Click ViewAnyIecButton, view_button_click view),
              (WaitFor IecInput, iec_input_wait view),
              (Find NameInput, name_input_find view),
              (SendKeys IecInput iec_code, iec_send_keys view),
              (SendKeys NameInput name, name_send_keys view)]"
  obtain w tr1 where calls: "run_calls ?calls tr = (w, tr1)"
    by (cases "run_calls ?calls tr")
  from assms calls show ?thesis
    unfolding lookup_steps_def captcha_response_def
    by (auto simp del: run_calls.simps split: option.splits sum.splits if_splits prod.splits)
qed

lemma create_driver_trace: "snd (create_driver c tr) = tr @ [CreateDriver]"
  by (simp add: create_driver_def split: option.splits)

lemma with_driver_shape:
  assumes "with_driver view iec_code name [] = Some (r, tr)"
  shows "prefix [CreateDriver] tr
         \<and> r \<noteq> Inr missing_response
         \<and> (form_filled view \<longrightarrow> prefix (form_calls iec_code name) tr)"
proof (cases "chrome view")
  case (Some e)
  with assms show ?thesis
    by (auto simp: with_driver_def create_driver_def missing_response_def form_filled_def
             split: if_splits)
next
  case None
  then have created: "create_driver (chrome view) [] = (Inr (), [CreateDriver])"
    by (simp add: create_driver_def)
  from assms created obtain r2 tr2 where
    steps: "lookup_steps view iec_code name [CreateDriver] = Some (r2, tr2)"
    by (auto simp: with_driver_def split: option.splits)
  from assms created steps have tr: "tr = tr2 @ [Quit]"
    by (auto simp: with_driver_def split: option.splits)
  from lookup_steps_prefix [OF steps] have "prefix [CreateDriver] tr2" .
  with tr have p1: "prefix [CreateDriver] tr" by (simp add: prefix_prefix)
  have p2: "prefix (form_calls iec_code name) tr" if "form_filled view"
    using lookup_steps_form_calls [OF that steps] tr by (simp add: prefix_prefix)
  have resp: "r \<noteq> Inr missing_response"
  proof (cases r2)
    case (Inl e)
    with assms created steps show ?thesis
      by (auto simp: with_driver_def missing_response_def split: option.splits if_splits)
  next
    case (Inr resp)
    with steps lookup_steps_response have "resp = captcha_response \<or> snd resp = 200" by blast
    with Inr assms created steps show ?thesis
      by (auto simp: with_driver_def missing_response_def captcha_response_def split: option.splits)
  qed
  from p1 p2 resp show ?thesis by blast
qed

lemma accepted_result:
  assumes "get_json view = Inr (JObj kvs)"
    and "map_of kvs ''iec_code'' = Some iec_code" and "map_of kvs ''name'' = Some name"
  shows "get_iec_details view =
     (case with_driver view iec_code name [] of
        None \<Rightarrow> None
      | Some (Inl e, tr) \<Rightarrow>
          if isinstance e Exception
          then Some (Inr (Failure (''Server error: '' @ str_exn e), 500), tr)
          else Some (Inl e, tr)
      | Some (Inr resp, tr) \<Rightarrow> Some (Inr resp, tr))"
  using assms present_keys_accepted [OF assms(2,3)]
  by (simp add: get_iec_details_def)

lemma captcha_exhausted_result:
  assumes "get_json view = Inr (JObj kvs)"
    and "map_of kvs ''iec_code'' = Some iec_code" and "map_of kvs ''name'' = Some name"
    and "form_filled view"
    and "handle_captcha_submission (captcha_rounds view) (form_calls iec_code name) = (Inr False, tr)"
  shows "get_iec_details view =
     (case driver_quit view of
        None \<Rightarrow> Some (Inr captcha_response, tr @ [Quit])
      | Some e \<Rightarrow>
          if isinstance e Exception
          then Some (Inr (Failure (''Server error: '' @ str_exn e), 500), tr @ [Quit])
          else Some (Inl e, tr @ [Quit]))"
proof -
  from assms(4) have created: "create_driver (chrome view) [] = (Inr (), [CreateDriver])"
    by (simp add: create_driver_def form_filled_def)
  from assms(4) have calls:
    "run_calls [(Get ''https://dgft.gov.in/CP/?opt=view-any-ice'', page_get view),
              (WaitFor ViewAnyIecButton, view_button_wait view),
              (Click ViewAnyIecButton, view_button_click view),
              (WaitFor IecInput, iec_input_wait view),
              (Find NameInput, name_input_find view),
              (SendKeys IecInput iec_code, iec_send_keys view),
              (SendKeys NameInput name, name_send_keys view)] [CreateDriver]
       = (None, form_calls iec_code name)"
    by (simp add: form_filled_def form_calls_def)
  from calls assms(5) have steps:
    "lookup_steps view iec_code name [CreateDriver] = Some (Inr captcha_response, tr)"
    unfolding lookup_steps_def captcha_response_def by (simp del: run_calls.simps)
  from created steps have
    "with_driver view iec_code name [] =
       (case driver_quit view of
          None \<Rightarrow> Some (Inr captcha_response, tr @ [Quit])
        | Some e \<Rightarrow> Some (Inl e, tr @ [Quit]))"
    by (simp add: with_driver_def split: option.splits)
  then show ?thesis
    unfolding accepted_result [OF assms(1-3)] by (simp split: option.splits)
qed

lemma sample_request_fields:
  "get_json (sample_request data q) = Inr data"
  "form_filled (sample_request data q)"
  "captcha_rounds (sample_request data q) = (\<lambda>k. crashed_view)"
  "driver_quit (sample_request data q) = q"
  by (simp_all add: sample_request_def form_filled_def)

lemma crashed_rounds_false:
  "\<exists>tr'. handle_captcha_submission (\<lambda>k. crashed_view) tr = (Inr False, tr')"
proof -
  have "fst (handle_captcha_submission (\<lambda>k. crashed_view) tr) = Inr False"
    by (rule exhausted_returns_false) (simp add: crashed_view_fails)
  then show ?thesis
    by (cases "handle_captcha_submission (\<lambda>k. crashed_view) tr") simp
qed

lemma missing_fields_rejected:
  assumes "get_json view = Inr data" and "missing_parameters data = Inr True"
  shows "get_iec_details view = Some (Inr missing_response, [])"
  using assms by (simp add: get_iec_details_def missing_response_def)

lemma missing_fields_cases:
  "missing_parameters JNull = Inr True"
  "missing_parameters (JObj []) = Inr True"
  "''iec_code'' \<notin> fst ` set kvs \<Longrightarrow> missing_parameters (JObj kvs) = Inr True"
  "''name'' \<notin> fst ` set kvs \<Longrightarrow> missing_parameters (JObj kvs) = Inr True"
  by (simp_all add: missing_parameters_def)

text \<open>
  C6. When the request is valid, the form is filled, \<open>handle_captcha_submission\<close> returns \<open>False\<close>
  and \<open>driver.quit()\<close> returns, the handler responds with the error \<open>Failed to solve captcha\<close> and
  status 400 after quitting the driver. This response differs from every response with status 500
  and from the rejection for missing parameters.
\<close>

theorem captcha_exhausted_response:
  assumes "get_json view = Inr (JObj kvs)"
    and "map_of kvs ''iec_code'' = Some iec_code" and "map_of kvs ''name'' = Some name"
    and "form_filled view"
    and "handle_captcha_submission (captcha_rounds view) (form_calls iec_code name) = (Inr False, tr)"
    and "driver_quit view = None"
  shows "get_iec_details view = Some (Inr (Failure ''Failed to solve captcha'', 400), tr @ [Quit])
         \<and> (\<forall>msg. (Failure ''Failed to solve captcha'', 400 :: nat) \<noteq> (Failure msg, 500))
         \<and> (Failure ''Failed to solve captcha'', 400) \<noteq> missing_response"
  using captcha_exhausted_result [OF assms(1-5)] assms(6)
  by (simp add: captcha_response_def missing_response_def)

text \<open>
  The request of scenario A on a browser whose every round fails.
\<close>

theorem captcha_exhausted_response_witness:
  "\<exists>tr. get_iec_details (sample_request acme_body None)
          = Some (Inr (Failure ''Failed to solve captcha'', 400), tr)"
proof -
  obtain tr where rounds:
    "handle_captcha_submission (\<lambda>k. crashed_view)
       (form_calls (JStr ''0101000061'') (JStr ''ACME EXPORTS'')) = (Inr False, tr)"
    using crashed_rounds_false by blast
  have "get_iec_details (sample_request acme_body None)
          = Some (Inr (Failure ''Failed to solve captcha'', 400), tr @ [Quit])"
    using captcha_exhausted_response
            [where view = "sample_request acme_body None"
               and kvs = "[(''iec_code'', JStr ''0101000061''), (''name'', JStr ''ACME EXPORTS'')]"
               and iec_code = "JStr ''0101000061''" and name = "JStr ''ACME EXPORTS''" and tr = tr]
          rounds
    by (simp add: sample_request_fields acme_body_def)
  then show ?thesis by blast
qed

text \<open>
  On the same request, when \<open>driver.quit()\<close> raises in the \<open>finally\<close> block, the exception replaces
  the response that was being returned, and the outer handler answers with status 500.
\<close>

theorem captcha_exhausted_quit_raises_counterexample:
  "fst (handle_captcha_submission (captcha_rounds quit_raises_request)
          (form_calls (JStr ''0101000061'') (JStr ''ACME EXPORTS''))) = Inr False
   \<and> map_option fst (get_iec_details quit_raises_request)
       = Some (Inr (Failure (''Server error: Message: chrome not reachable'' @ [CHR 0x0A]), 500))"
proof -
  obtain tr where rounds:
    "handle_captcha_submission (\<lambda>k. crashed_view)
       (form_calls (JStr ''0101000061'') (JStr ''ACME EXPORTS'')) = (Inr False, tr)"
    using crashed_rounds_false by blast
  have "get_iec_details quit_raises_request
          = Some (Inr (Failure (''Server error: Message: chrome not reachable'' @ [CHR 0x0A]), 500),
                  tr @ [Quit])"
    using captcha_exhausted_result
            [where view = quit_raises_request
               and kvs = "[(''iec_code'', JStr ''0101000061''), (''name'', JStr ''ACME EXPORTS'')]"
               and iec_code = "JStr ''0101000061''" and name = "JStr ''ACME EXPORTS''" and tr = tr]
          rounds
    by (simp add: quit_raises_request_def sample_request_fields acme_body_def)
  with rounds show ?thesis
    by (simp add: quit_raises_request_def sample_request_fields)
qed

text \<open>
  C7. A request whose JSON body is the number \<open>1\<close> has neither field, and is not rejected with
  status 400: \<open>'iec_code' not in data\<close> raises \<open>TypeError\<close>, and the outer handler answers with
  status 500 and the message of the exception. No browser session is created.
\<close>

theorem number_body_server_error:
  "missing_parameters (JNum 1) = Inl (Exn TypeError ''argument of type 'int' is not iterable'')
   \<and> get_iec_details (sample_request (JNum 1) None)
       = Some (Inr (Failure ''Server error: argument of type 'int' is not iterable'', 500), [])"
  by (simp add: get_iec_details_def missing_parameters_def sample_request_def)

text \<open>
  C10. A body that holds both keys with empty strings as values passes the check of the required
  parameters. Whatever the handler returns for it, the driver was created first and the response
  is not the rejection for missing parameters; when the navigation calls succeed, the two empty
  strings are sent to the input fields.
\<close>

theorem empty_strings_accepted:
  assumes "get_json view = Inr (JObj kvs)"
    and "map_of kvs ''iec_code'' = Some (JStr [])" and "map_of kvs ''name'' = Some (JStr [])"
  shows "missing_parameters (JObj kvs) = Inr False
         \<and> (\<forall>r tr. get_iec_details view = Some (r, tr) \<longrightarrow>
                prefix [CreateDriver] tr
                \<and> r \<noteq> Inr (Failure ''Missing required parameters: iec_code and name'', 400)
                \<and> (form_filled view \<longrightarrow> prefix (form_calls (JStr []) (JStr [])) tr))"
proof (intro conjI allI impI)
  show "missing_parameters (JObj kvs) = Inr False"
    using assms(2,3) by (rule present_keys_accepted)
next
  fix r tr
  assume result: "get_iec_details view = Some (r, tr)"
  from result obtain r0 where inner: "with_driver view (JStr []) (JStr []) [] = Some (r0, tr)"
    and r: "r = r0 \<or> (\<exists>msg. r = Inr (Failure msg, 500)) \<or> (\<exists>e. r = Inl e)"
    unfolding accepted_result [OF assms]
    by (auto split: option.splits sum.splits if_splits)
  note shape = with_driver_shape [OF inner]
  from shape show "prefix [CreateDriver] tr" by blast
  from shape r show "r \<noteq> Inr (Failure ''Missing required parameters: iec_code and name'', 400)"
    by (auto simp: missing_response_def)
  show "prefix (form_calls (JStr []) (JStr [])) tr" if "form_filled view"
    using shape that by blast
qed

text \<open>
  The body with two empty strings on a browser whose every CAPTCHA round fails.
\<close>

theorem empty_strings_accepted_witness:
  "missing_parameters empty_strings_body = Inr False
   \<and> (\<exists>r tr. get_iec_details (sample_request empty_strings_body None) = Some (r, tr)
         \<and> prefix (form_calls (JStr []) (JStr [])) tr)"
proof -
  let ?kvs = "[(''iec_code'', JStr []), (''name'', JStr [])]"
  obtain tr where rounds:
    "handle_captcha_submission (\<lambda>k. crashed_view) (form_calls (JStr []) (JStr [])) = (Inr False, tr)"
    using crashed_rounds_false by blast
  have result: "get_iec_details (sample_request empty_strings_body None)
          = Some (Inr captcha_response, tr @ [Quit])"
    using captcha_exhausted_result
            [where view = "sample_request empty_strings_body None" and kvs = ?kvs
               and iec_code = "JStr []" and name = "JStr []" and tr = tr]
          rounds
    by (simp add: sample_request_fields empty_strings_body_def)
  from empty_strings_accepted
         [where view = "sample_request empty_strings_body None" and kvs = ?kvs]
  have "missing_parameters (JObj ?kvs) = Inr False"
    and "\<forall>r tr. get_iec_details (sample_request empty_strings_body None) = Some (r, tr) \<longrightarrow>
           (form_filled (sample_request empty_strings_body None) \<longrightarrow>
              prefix (form_calls (JStr []) (JStr [])) tr)"
    by (simp_all add: sample_request_fields empty_strings_body_def)
  with result show ?thesis
    by (simp add: sample_request_fields empty_strings_body_def)
qed

end
